theory Spec2Isabelle
  imports Complex_Main
begin

section \<open>JavaScript values used by the engine\<close>

text \<open>
  Strings are byte lists. Counts reported by the counting tools are JavaScript numbers
  holding integers; they are modelled as \<open>int\<close> (exact below \<open>2 ^ 53\<close>). Ratios, clock
  differences and rounded values are modelled as exact rationals (\<open>rat\<close>) instead of
  IEEE doubles.
\<close>

text \<open>\<open>x || 0\<close> on a number that may be absent (\<open>undefined\<close>): absent and \<open>0\<close> both give \<open>0\<close>.\<close>

definition or0 :: "'a::zero option \<Rightarrow> 'a" where
  "or0 x = (case x of None \<Rightarrow> 0 | Some v \<Rightarrow> v)"

text \<open>Truthiness of a string that may be absent: \<open>undefined\<close>, \<open>null\<close> and \<open>""\<close> are falsy.\<close>

definition truthy :: "string option \<Rightarrow> bool" where
  "truthy x = (case x of None \<Rightarrow> False | Some s \<Rightarrow> s \<noteq> [])"

text \<open>\<open>x || d\<close> on a string that may be absent.\<close>

definition or_str :: "string option \<Rightarrow> string \<Rightarrow> string" where
  "or_str x d = (if truthy x then the x else d)"

text \<open>
  \<open>Math.round\<close>: the nearest integer, halves towards plus infinity. Numbers are exact
  rationals here; the program computes with IEEE doubles, so a stored gain, detune or
  intensity whose exact value lies within a floating-point error of a half-way case may
  differ from the model by one unit of its last stored decimal.
\<close>

definition Math_round :: "rat \<Rightarrow> rat" where
  "Math_round x = of_int \<lfloor>x + 1 / 2\<rfloor>"

text \<open>White space removed by \<open>String.prototype.trim\<close> (the ASCII part of it).\<close>

definition is_ws :: "char \<Rightarrow> bool" where
  "is_ws c = (c \<in> set [CHR 0x09, CHR 0x0A, CHR 0x0B, CHR 0x0C, CHR 0x0D, CHR '' ''])"

definition trim :: "string \<Rightarrow> string" where
  "trim s = rev (dropWhile is_ws (rev (dropWhile is_ws s)))"

text \<open>\<open>s.split(c)\<close> for a one-character separator: always at least one piece.\<close>

fun split :: "char \<Rightarrow> string \<Rightarrow> string list" where
  "split c [] = [[]]"
| "split c (x # xs) =
     (if x = c then [] # split c xs
      else (case split c xs of [] \<Rightarrow> [[x]] | w # ws \<Rightarrow> (x # w) # ws))"

text \<open>\<open>parts.join(sep)\<close>.\<close>

fun join :: "string \<Rightarrow> string list \<Rightarrow> string" where
  "join sep [] = []"
| "join sep [p] = p"
| "join sep (p # q # ps) = p @ sep @ join sep (q # ps)"

text \<open>\<open>s.includes(sub)\<close>: \<open>sub\<close> occurs somewhere in \<open>s\<close> as a contiguous substring.\<close>

fun starts_with :: "string \<Rightarrow> string \<Rightarrow> bool" where
  "starts_with s [] = True"
| "starts_with [] (p # ps) = False"
| "starts_with (x # xs) (p # ps) = (x = p \<and> starts_with xs ps)"

fun str_includes :: "string \<Rightarrow> string \<Rightarrow> bool" where
  "str_includes [] sub = (sub = [])"
| "str_includes (x # xs) sub = (starts_with (x # xs) sub \<or> str_includes xs sub)"

text \<open>
  A JavaScript object used as a dictionary: an association list in property order with
  unique keys. Assigning to an existing key replaces the value in place, assigning to a
  new key appends it.
\<close>

fun obj_set :: "'k \<Rightarrow> 'v \<Rightarrow> ('k \<times> 'v) list \<Rightarrow> ('k \<times> 'v) list" where
  "obj_set k v [] = [(k, v)]"
| "obj_set k v ((k', v') # kvs) =
     (if k = k' then (k, v) # kvs else (k', v') # obj_set k v kvs)"

definition Object_keys :: "('k \<times> 'v) list \<Rightarrow> 'k list" where
  "Object_keys obj = map fst obj"

text \<open>A JavaScript \<open>Set\<close>: the members in insertion order, without repetition.\<close>

definition Set_add :: "'a \<Rightarrow> 'a list \<Rightarrow> 'a list" where
  "Set_add x s = (if x \<in> set s then s else s @ [x])"

definition Set_add_all :: "'a list \<Rightarrow> 'a list \<Rightarrow> 'a list" where
  "Set_add_all xs s = fold Set_add xs s"

text \<open>
  \<open>Array.prototype.sort(cmp)\<close>: a stable sort. \<open>cmp a b\<close> negative puts \<open>a\<close> first.
  Modelled as a stable insertion sort; for a comparator that is a consistent ordering
  every stable sort gives this result.
\<close>

fun insert_cmp :: "('a \<Rightarrow> 'a \<Rightarrow> rat) \<Rightarrow> 'a \<Rightarrow> 'a list \<Rightarrow> 'a list" where
  "insert_cmp cmp x [] = [x]"
| "insert_cmp cmp x (y # ys) =
     (if cmp x y \<le> 0 then x # y # ys else y # insert_cmp cmp x ys)"

definition Array_sort :: "('a \<Rightarrow> 'a \<Rightarrow> rat) \<Rightarrow> 'a list \<Rightarrow> 'a list" where
  "Array_sort cmp xs = foldr (insert_cmp cmp) xs []"

section \<open>Constants (lib/constants.mjs)\<close>

definition SCHEMA_VERSION :: string where
  "SCHEMA_VERSION = ''2.2''"

definition DEFAULT_COUNTER_TOOL :: string where
  "DEFAULT_COUNTER_TOOL = ''scc''"

definition AUDIO_MAX_VOICES :: nat where
  "AUDIO_MAX_VOICES = 16"

definition AUDIO_DETUNE_MAX :: rat where
  "AUDIO_DETUNE_MAX = 25"

section \<open>Data model\<close>

text \<open>
  Per-language statistics. Both backends always write \<open>files\<close>, \<open>blank\<close>, \<open>comment\<close> and
  \<open>code\<close>; \<open>complexity\<close>, \<open>bytes\<close> and \<open>lines\<close> exist only under scc.
\<close>

record LanguageStats =
  files :: int
  blank :: int
  comment :: int
  code :: int
  complexity :: "int option"
  bytes :: "int option"
  lines :: "int option"

record Analysis =
  elapsed_seconds :: rat
  n_files :: int
  n_lines :: int
  files_per_second :: rat
  lines_per_second :: rat
  counter_tool :: string
  counter_version :: string

record CounterData =
  cd_languages :: "(string \<times> LanguageStats) list"
  cd_analysis :: Analysis

text \<open>One entry of git log: \<open>{hash, date, message}\<close>.\<close>

record Commit =
  hash :: string
  date :: string
  message :: string

text \<open>
  One analysed commit. The source's fields \<open>date\<close> and \<open>message\<close> are \<open>commit_date\<close> and
  \<open>commit_message\<close> here, since \<open>Commit\<close> has fields of the same names.
\<close>

record CommitRecord =
  commit :: string
  commit_date :: string
  commit_message :: string
  analysis :: Analysis
  languages :: "(string \<times> LanguageStats) list"
  totalLines :: int
  totalFiles :: int
  totalBytes :: int

section \<open>The environment: git, the counting tools and the clock\<close>

text \<open>
  What a subprocess hands back to \<open>exec\<close>: its standard output, or a failure (non-zero
  exit status, time-out, missing program).
\<close>

datatype proc = Failed | Stdout string

datatype error =
    WorktreeError
  | CloneError
  | BranchListError
  | LogError
  | CheckoutError string
  | TypeError
  | HtmlError

text \<open>
  \<open>exec(cmd, options)\<close> of lib/exec.mjs: the trimmed output; on failure the empty
  string when \<open>ignoreError\<close> is set, the exception \<open>e\<close> otherwise.
\<close>

definition exec :: "proc \<Rightarrow> bool \<Rightarrow> error \<Rightarrow> error + string" where
  "exec p ignoreError e =
     (case p of
        Stdout out \<Rightarrow> Inr (trim out)
      | Failed \<Rightarrow> if ignoreError then Inr [] else Inl e)"

text \<open>
  The output of a counting tool after \<open>exec\<close> and \<open>JSON.parse\<close>: nothing (the tool
  failed or printed nothing, \<open>exec\<close> returned \<open>''\<close>), text that makes \<open>JSON.parse\<close> or the
  loop over it throw, or the parsed document.
\<close>

datatype 'a tool_output = NoOutput | Garbled | Json 'a

text \<open>One entry of the array printed by scc.\<close>

record scc_entry =
  Name :: string
  Count :: "int option"
  Blank :: "int option"
  Comment :: "int option"
  Code :: "int option"
  Complexity :: "int option"
  Bytes :: "int option"
  Lines :: "int option"

text \<open>The \<open>header\<close> block and the per-language values of the object printed by cloc.\<close>

record cloc_header =
  h_elapsed_seconds :: "rat option"
  h_n_files :: "int option"
  h_n_lines :: "int option"
  h_files_per_second :: "rat option"
  h_lines_per_second :: "rat option"
  h_cloc_version :: "string option"

record cloc_stats =
  nFiles :: "int option"
  s_blank :: "int option"
  s_comment :: "int option"
  s_code :: "int option"

record cloc_json =
  header :: "cloc_header option"
  entries :: "(string \<times> cloc_stats) list"

text \<open>
  One run of a counter on a checked-out tree: the two readings of \<open>Date.now()\<close> around
  the invocation (milliseconds) and what each tool prints there.
\<close>

record invocation =
  clock_start :: int
  clock_end :: int
  scc_output :: "scc_entry list tool_output"
  cloc_output :: "cloc_json tool_output"

section \<open>CounterAdapter (lib/counter.mjs)\<close>

definition emptyAnalysis :: "string \<Rightarrow> CounterData" where
  "emptyAnalysis tool =
     \<lparr>cd_languages = [],
      cd_analysis = \<lparr>elapsed_seconds = 0, n_files = 0, n_lines = 0, files_per_second = 0,
        lines_per_second = 0, counter_tool = tool, counter_version = ''unknown''\<rparr>\<rparr>"

text \<open>The body of the loop over scc's entries: \<open>(languages, totalFiles, totalLines)\<close>.\<close>

definition scc_step ::
  "scc_entry \<Rightarrow> (string \<times> LanguageStats) list \<times> int \<times> int
     \<Rightarrow> (string \<times> LanguageStats) list \<times> int \<times> int" where
  "scc_step entry acc =
     (case acc of (langs, tFiles, tLines) \<Rightarrow>
        (obj_set (Name entry)
           \<lparr>files = or0 (Count entry), blank = or0 (Blank entry),
            comment = or0 (Comment entry), code = or0 (Code entry),
            complexity = Some (or0 (Complexity entry)), bytes = Some (or0 (Bytes entry)),
            lines = Some (or0 (Lines entry))\<rparr> langs,
         tFiles + or0 (Count entry),
         tLines + or0 (Lines entry)))"

definition runScc :: "invocation \<Rightarrow> CounterData" where
  "runScc run =
     (let elapsedSeconds = of_int (clock_end run - clock_start run) / 1000 in
      case scc_output run of
        NoOutput \<Rightarrow>
          \<lparr>cd_languages = [],
           cd_analysis = \<lparr>elapsed_seconds = elapsedSeconds, n_files = 0, n_lines = 0,
             files_per_second = 0, lines_per_second = 0, counter_tool = ''scc'',
             counter_version = ''unknown''\<rparr>\<rparr>
      | Garbled \<Rightarrow> emptyAnalysis ''scc''
      | Json data \<Rightarrow>
          (case fold scc_step data ([], 0, 0) of (langs, tFiles, tLines) \<Rightarrow>
             \<lparr>cd_languages = langs,
              cd_analysis = \<lparr>elapsed_seconds = elapsedSeconds, n_files = tFiles,
                n_lines = tLines,
                files_per_second =
                  (if elapsedSeconds > 0 then of_int tFiles / elapsedSeconds else 0),
                lines_per_second =
                  (if elapsedSeconds > 0 then of_int tLines / elapsedSeconds else 0),
                counter_tool = ''scc'', counter_version = ''3.x''\<rparr>\<rparr>))"

text \<open>
  The body of the loop over \<open>Object.entries(data)\<close> of cloc's object: the keys \<open>header\<close>
  and \<open>SUM\<close> are skipped.
\<close>

definition cloc_step ::
  "string \<times> cloc_stats \<Rightarrow> (string \<times> LanguageStats) list \<Rightarrow> (string \<times> LanguageStats) list" where
  "cloc_step e langs =
     (case e of (lang, stats) \<Rightarrow>
        if lang \<noteq> ''header'' \<and> lang \<noteq> ''SUM'' then
          obj_set lang
            \<lparr>files = or0 (nFiles stats), blank = or0 (s_blank stats),
             comment = or0 (s_comment stats), code = or0 (s_code stats),
             complexity = None, bytes = None, lines = None\<rparr> langs
        else langs)"

definition runCloc :: "invocation \<Rightarrow> CounterData" where
  "runCloc run =
     (case cloc_output run of
        NoOutput \<Rightarrow> emptyAnalysis ''cloc''
      | Garbled \<Rightarrow> emptyAnalysis ''cloc''
      | Json data \<Rightarrow>
          \<lparr>cd_languages = fold cloc_step (entries data) [],
           cd_analysis =
             (case header data of
                None \<Rightarrow>
                  \<lparr>elapsed_seconds = 0, n_files = 0, n_lines = 0, files_per_second = 0,
                   lines_per_second = 0, counter_tool = ''cloc'',
                   counter_version = ''unknown''\<rparr>
              | Some h \<Rightarrow>
                  \<lparr>elapsed_seconds = or0 (h_elapsed_seconds h), n_files = or0 (h_n_files h),
                   n_lines = or0 (h_n_lines h),
                   files_per_second = or0 (h_files_per_second h),
                   lines_per_second = or0 (h_lines_per_second h),
                   counter_tool = ''cloc'',
                   counter_version = or_str (h_cloc_version h) ''unknown''\<rparr>)\<rparr>)"

definition runCounter :: "string \<Rightarrow> invocation \<Rightarrow> CounterData" where
  "runCounter tool run = (if tool = ''scc'' then runScc run else runCloc run)"

section \<open>RepositoryWalker (lib/git.mjs)\<close>

text \<open>
  Everything outside the program that a run consults. Each git command is given by what
  its subprocess returns; the counting tools and the clock by what a counter run sees in
  the tree of the checked-out commit; \<open>localeCompare\<close> is the host's string collation
  (negative, zero or positive); \<open>ejs_render\<close> tells whether the HTML template renders.
\<close>

record env =
  worktree_add :: proc
  git_clone :: proc
  cat_file :: "string \<Rightarrow> proc"
  branch_r :: proc
  symbolic_ref :: proc
  git_log :: "string \<Rightarrow> proc"
  checkout :: "string \<Rightarrow> proc"
  counter_run :: "string \<Rightarrow> invocation"
  localeCompare :: "string \<Rightarrow> string \<Rightarrow> int"
  ejs_render :: bool

definition commitExists :: "env \<Rightarrow> string \<Rightarrow> bool" where
  "commitExists env h =
     (case exec (cat_file env h) False TypeError of Inl e \<Rightarrow> False | Inr out \<Rightarrow> True)"

definition cloneRepo :: "env \<Rightarrow> error + unit" where
  "cloneRepo env =
     (case exec (git_clone env) False CloneError of Inl e \<Rightarrow> Inl e | Inr out \<Rightarrow> Inr ())"

definition addWorktree :: "env \<Rightarrow> error + unit" where
  "addWorktree env =
     (case exec (worktree_add env) False WorktreeError of Inl e \<Rightarrow> Inl e | Inr out \<Rightarrow> Inr ())"

text \<open>
  \<open>s.match(/refs\/remotes\/origin\/(.+)/)\<close>: the first place where the prefix is followed
  by at least one character that is no line terminator; the group is the rest of that line.
\<close>

definition line_end :: "char \<Rightarrow> bool" where
  "line_end c = (c = CHR 0x0A \<or> c = CHR 0x0D)"

fun match_origin :: "string \<Rightarrow> string option" where
  "match_origin [] = None"
| "match_origin (x # xs) =
     (let rest = drop (length ''refs/remotes/origin/'') (x # xs) in
      if starts_with (x # xs) ''refs/remotes/origin/'' \<and> takeWhile (\<lambda>c. \<not> line_end c) rest \<noteq> []
      then Some (takeWhile (\<lambda>c. \<not> line_end c) rest)
      else match_origin xs)"

text \<open>The branch that \<open>getCommitHistory\<close> passes to git log (its variable \<open>actualBranch\<close>).\<close>

definition actualBranch :: "env \<Rightarrow> string \<Rightarrow> error + string" where
  "actualBranch env branch =
     (case exec (branch_r env) False BranchListError of
        Inl e \<Rightarrow> Inl e
      | Inr branches \<Rightarrow>
          (let hasMain = str_includes branches ''origin/main'';
               hasMaster = str_includes branches ''origin/master''
           in if branch = ''main'' \<and> \<not> hasMain then
                if hasMaster then Inr ''master''
                else
                  (case exec (symbolic_ref env) True TypeError of
                     Inl e \<Rightarrow> Inl e
                   | Inr defaultBranchRef \<Rightarrow>
                       if defaultBranchRef \<noteq> [] \<and> trim defaultBranchRef \<noteq> [] then
                         (case match_origin (trim defaultBranchRef) of
                            Some m \<Rightarrow> Inr m
                          | None \<Rightarrow> Inr branch)
                       else Inr branch)
              else Inr branch))"

text \<open>
  One line \<open>hash|date|subject\<close>. With fewer than two separators \<open>date\<close> is \<open>undefined\<close>
  and \<open>date.trim()\<close> throws.
\<close>

definition parse_log_line :: "string \<Rightarrow> error + Commit" where
  "parse_log_line line =
     (case split (CHR ''|'') line of
        h # d # messageParts \<Rightarrow>
          Inr \<lparr>hash = trim h, date = trim d, message = trim (join ''|'' messageParts)\<rparr>
      | _ \<Rightarrow> Inl TypeError)"

fun map_err :: "('a \<Rightarrow> error + 'b) \<Rightarrow> 'a list \<Rightarrow> error + 'b list" where
  "map_err f [] = Inr []"
| "map_err f (x # xs) =
     (case f x of
        Inl e \<Rightarrow> Inl e
      | Inr y \<Rightarrow> (case map_err f xs of Inl e \<Rightarrow> Inl e | Inr ys \<Rightarrow> Inr (y # ys)))"

definition getCommitHistory :: "env \<Rightarrow> string \<Rightarrow> string option \<Rightarrow> error + Commit list" where
  "getCommitHistory env branch afterCommit =
     (case actualBranch env branch of
        Inl e \<Rightarrow> Inl e
      | Inr b \<Rightarrow>
          (let range = (if truthy afterCommit then the afterCommit @ ''..'' @ b else b) in
           case exec (git_log env range) False LogError of
             Inl e \<Rightarrow> Inl e
           | Inr out \<Rightarrow>
               map_err parse_log_line (filter (\<lambda>line. trim line \<noteq> []) (split (CHR 0x0A) out))))"

section \<open>analyzeCommits (lib/analyze.mjs)\<close>

text \<open>The three running totals of one commit: \<open>(totalLines, totalFiles, totalBytes)\<close>.\<close>

definition commit_totals :: "(string \<times> LanguageStats) list \<Rightarrow> int \<times> int \<times> int" where
  "commit_totals langs =
     fold (\<lambda>e acc. case acc of (tLines, tFiles, tBytes) \<Rightarrow>
             (tLines + code (snd e), tFiles + files (snd e), tBytes + or0 (bytes (snd e))))
       langs (0, 0, 0)"

text \<open>The record pushed for one commit, from the counter's answer in its tree.\<close>

definition commit_record :: "env \<Rightarrow> string \<Rightarrow> Commit \<Rightarrow> CommitRecord" where
  "commit_record env counterTool c =
     (let counterData = runCounter counterTool (counter_run env (hash c)) in
      case commit_totals (cd_languages counterData) of (tLines, tFiles, tBytes) \<Rightarrow>
        \<lparr>commit = hash c, commit_date = date c, commit_message = message c,
         analysis = cd_analysis counterData, languages = cd_languages counterData,
         totalLines = tLines, totalFiles = tFiles, totalBytes = tBytes\<rparr>)"

text \<open>\<open>Object.keys(result.languages).forEach(lang => allLanguages.add(lang))\<close>.\<close>

definition add_languages :: "CommitRecord \<Rightarrow> string list \<Rightarrow> string list" where
  "add_languages r s = Set_add_all (Object_keys (languages r)) s"

text \<open>
  The loop over the new commits. The state is \<open>(results, allLanguages)\<close>; a failed
  checkout throws out of the loop.
\<close>

fun analyze_loop ::
  "env \<Rightarrow> string \<Rightarrow> Commit list \<Rightarrow> CommitRecord list \<times> string list
     \<Rightarrow> error + CommitRecord list \<times> string list" where
  "analyze_loop env counterTool [] st = Inr st"
| "analyze_loop env counterTool (c # cs) st =
     (case exec (checkout env (hash c)) False (CheckoutError (hash c)) of
        Inl e \<Rightarrow> Inl e
      | Inr out \<Rightarrow>
          (let r = commit_record env counterTool c
           in analyze_loop env counterTool cs (fst st @ [r], add_languages r (snd st))))"

record AnalysisData =
  ad_results :: "CommitRecord list"
  ad_allLanguages :: "string list"

text \<open>The comparator handed to \<open>sort\<close>.\<close>

definition languageCompare :: "env \<Rightarrow> CommitRecord \<Rightarrow> int \<Rightarrow> string \<Rightarrow> string \<Rightarrow> rat" where
  "languageCompare env finalCommit totalLinesInFinal a b =
     (let linesA = (case map_of (languages finalCommit) a of None \<Rightarrow> 0 | Some st \<Rightarrow> code st);
          linesB = (case map_of (languages finalCommit) b of None \<Rightarrow> 0 | Some st \<Rightarrow> code st);
          percA = (if totalLinesInFinal > 0 then of_int linesA / of_int totalLinesInFinal else 0);
          percB = (if totalLinesInFinal > 0 then of_int linesB / of_int totalLinesInFinal else 0)
      in if percB \<noteq> percA then percB - percA else of_int (localeCompare env a b))"

definition analyzeCommits ::
  "env \<Rightarrow> Commit list \<Rightarrow> CommitRecord list \<Rightarrow> string \<Rightarrow> error + AnalysisData" where
  "analyzeCommits env commits existingResults counterTool =
     (case analyze_loop env counterTool commits
             (existingResults, fold add_languages existingResults [])
      of
        Inl e \<Rightarrow> Inl e
      | Inr st \<Rightarrow>
          if fst st = [] then Inr \<lparr>ad_results = [], ad_allLanguages = []\<rparr>
          else
            (let finalCommit = last (fst st);
                 totalLinesInFinal = fold (\<lambda>e t. t + code (snd e)) (languages finalCommit) 0
             in Inr \<lparr>ad_results = fst st,
                   ad_allLanguages =
                     Array_sort (languageCompare env finalCommit totalLinesInFinal) (snd st)\<rparr>))"

section \<open>AudioEncoder (lib/audio.mjs)\<close>

datatype metric = MLines | MFiles | MBytes

definition metrics :: "metric list" where
  "metrics = [MLines, MFiles, MBytes]"

text \<open>\<open>stats[metricKeys[metric]] || 0\<close>: \<open>code\<close> for lines, \<open>files\<close> for files, \<open>bytes\<close> for bytes.\<close>

definition metric_value :: "metric \<Rightarrow> LanguageStats \<Rightarrow> int" where
  "metric_value m st = (case m of MLines \<Rightarrow> code st | MFiles \<Rightarrow> files st | MBytes \<Rightarrow> or0 (bytes st))"

definition metric_total :: "metric \<Rightarrow> CommitRecord \<Rightarrow> int" where
  "metric_total m c = fold (\<lambda>e t. t + metric_value m (snd e)) (languages c) 0"

text \<open>
  The global range of one metric, \<open>(min, max)\<close>: \<open>min\<close> starts at \<open>Infinity\<close> (\<open>None\<close>),
  \<open>max\<close> at \<open>0\<close>.
\<close>

definition minMax :: "metric \<Rightarrow> CommitRecord list \<Rightarrow> int option \<times> int" where
  "minMax m rs =
     fold (\<lambda>c acc. case acc of (mn, mx) \<Rightarrow>
             (Some (case mn of None \<Rightarrow> metric_total m c | Some lo \<Rightarrow> min lo (metric_total m c)),
              max mx (metric_total m c)))
       rs (None, 0)"

text \<open>\<open>commit?.languages[lang]?.[key] || 0\<close>.\<close>

definition lang_value :: "metric \<Rightarrow> CommitRecord option \<Rightarrow> string \<Rightarrow> int" where
  "lang_value m c lang =
     (case c of
        None \<Rightarrow> 0
      | Some r \<Rightarrow> (case map_of (languages r) lang of None \<Rightarrow> 0 | Some st \<Rightarrow> metric_value m st))"

type_synonym voice = "nat \<times> rat \<times> rat"

type_synonym AudioFrame = "(metric \<times> rat \<times> voice list) list"

text \<open>The body of the loop over the voices: nothing is pushed when \<open>gain === 0\<close>.\<close>

definition voice_of ::
  "metric \<Rightarrow> string list \<Rightarrow> CommitRecord option \<Rightarrow> CommitRecord \<Rightarrow> int \<Rightarrow> nat \<Rightarrow> voice option" where
  "voice_of m langs prevCommit c tot v =
     (let lang = langs ! v;
          val = lang_value m (Some c) lang;
          prevValue = lang_value m prevCommit lang;
          gain = (if tot > 0 then of_int val / of_int tot else 0)
      in if gain = 0 then None
         else
           (let detune =
                  (if prevCommit \<noteq> None \<and> prevValue > 0 then
                     max (- AUDIO_DETUNE_MAX)
                       (min AUDIO_DETUNE_MAX
                          ((of_int (val - prevValue) / of_int prevValue) * AUDIO_DETUNE_MAX))
                   else if val > 0 \<and> prevValue = 0 then AUDIO_DETUNE_MAX * (1 / 2)
                   else 0)
            in Some (v, Math_round (gain * 100) / 100, Math_round (detune * 10) / 10)))"

definition metric_frame ::
  "int option \<times> int \<Rightarrow> metric \<Rightarrow> string list \<Rightarrow> CommitRecord option \<Rightarrow> CommitRecord
     \<Rightarrow> rat \<times> voice list" where
  "metric_frame mm m langs prevCommit c =
     (let tot = metric_total m c;
          maxVoices = min (length langs) AUDIO_MAX_VOICES;
          masterIntensity =
            (case fst mm of
               None \<Rightarrow> 1
             | Some lo \<Rightarrow>
                 if snd mm > lo
                 then Math_round ((of_int (tot - lo) / of_int (snd mm - lo)) * 100) / 100
                 else 1)
      in (masterIntensity, List.map_filter (voice_of m langs prevCommit c tot) [0..<maxVoices]))"

fun audio_frames ::
  "(metric \<Rightarrow> int option \<times> int) \<Rightarrow> string list \<Rightarrow> CommitRecord option \<Rightarrow> CommitRecord list
     \<Rightarrow> AudioFrame list" where
  "audio_frames mm langs prevCommit [] = []"
| "audio_frames mm langs prevCommit (c # cs) =
     map (\<lambda>m. (m, metric_frame (mm m) m langs prevCommit c)) metrics
       # audio_frames mm langs (Some c) cs"

definition computeAudioData :: "CommitRecord list \<Rightarrow> string list \<Rightarrow> AudioFrame list" where
  "computeAudioData rs langs =
     (if rs = [] then [] else audio_frames (\<lambda>m. minMax m rs) langs None rs)"

section \<open>The persisted session (lib/data.mjs)\<close>

text \<open>
  The document stored in data.json. Of \<open>metadata\<close> the fields \<open>analyzed_at\<close> and
  \<open>total_duration_seconds\<close> (clock readings) and \<open>cloc_version\<close> (a copy of
  \<open>counter_version\<close>) are left out. A field that a stored document may lack, or hold as
  \<open>null\<close>, is an option. A stored document is taken to have its \<open>metadata\<close> object and its
  \<open>results\<close> array.
\<close>

record Session =
  schema_version :: "string option"
  repository_url :: "string option"
  total_commits :: nat
  md_counter_tool :: "string option"
  md_counter_version :: "string option"
  last_commit_hash :: "string option"
  last_commit_date :: "string option"
  results :: "CommitRecord list"
  allLanguages :: "string list"
  audioData :: "AudioFrame list"

text \<open>data.json in the output directory: missing, not parseable as JSON, or a document.\<close>

datatype data_file = Absent | Unparseable | Stored Session

text \<open>The rendered page, given by the data and the URL it was rendered from.\<close>

datatype html = Html Session string

record fs =
  data_json :: data_file
  visualization_html :: "html option"

definition loadExistingData :: "fs \<Rightarrow> string \<Rightarrow> Session option" where
  "loadExistingData disk schemaVersion =
     (case data_json disk of
        Absent \<Rightarrow> None
      | Unparseable \<Rightarrow> None
      | Stored d \<Rightarrow>
          if \<not> truthy (schema_version d) then None
          else if schema_version d \<noteq> Some schemaVersion then None
          else Some d)"

definition createDataStructure ::
  "string \<Rightarrow> CommitRecord list \<Rightarrow> string list \<Rightarrow> string \<times> string \<Rightarrow> string \<Rightarrow> string \<Rightarrow> Session" where
  "createDataStructure repoUrl rs langs counterInfo counterTool schemaVersion =
     \<lparr>schema_version = Some schemaVersion,
      repository_url = Some repoUrl,
      total_commits = length rs,
      md_counter_tool = Some (or_str (Some (fst counterInfo)) counterTool),
      md_counter_version = Some (or_str (Some (snd counterInfo)) ''unknown''),
      last_commit_hash = (if rs \<noteq> [] then Some (commit (last rs)) else None),
      last_commit_date = (if rs \<noteq> [] then Some (commit_date (last rs)) else None),
      results = rs,
      allLanguages = langs,
      audioData = computeAudioData rs langs\<rparr>"

definition generateHTML :: "env \<Rightarrow> Session \<Rightarrow> string \<Rightarrow> error + html" where
  "generateHTML env d repoUrl = (if ejs_render env then Inr (Html d repoUrl) else Inl HtmlError)"

section \<open>main (analyze.mjs)\<close>

text \<open>The command line after parsing.\<close>

record args =
  repoUrl :: string
  forceFull :: bool
  localRepoPath :: "string option"
  jsonProgress :: bool
  counterTool :: string

datatype outcome = UpToDate | Complete

text \<open>
  From \<open>analyzeCommits\<close> to the end of the \<open>try\<close> block: analyse, build the session, write
  data.json, render and write visualization.html.
\<close>

definition counterInfo :: "args \<Rightarrow> AnalysisData \<Rightarrow> string \<times> string" where
  "counterInfo a analysisData =
     (if ad_results analysisData \<noteq> [] then
        (or_str (Some (counter_tool (analysis (hd (ad_results analysisData))))) (counterTool a),
         or_str (Some (counter_version (analysis (hd (ad_results analysisData))))) ''unknown'')
      else (counterTool a, ''unknown''))"

definition main_analyze ::
  "env \<Rightarrow> args \<Rightarrow> fs \<Rightarrow> Commit list \<Rightarrow> CommitRecord list \<Rightarrow> fs \<times> (error + outcome)" where
  "main_analyze env a disk commits existingResults =
     (case analyzeCommits env commits existingResults (counterTool a) of
        Inl e \<Rightarrow> (disk, Inl e)
      | Inr analysisData \<Rightarrow>
          (let d = createDataStructure (repoUrl a) (ad_results analysisData)
                     (ad_allLanguages analysisData) (counterInfo a analysisData) (counterTool a)
                     SCHEMA_VERSION;
               disk1 = disk\<lparr>data_json := Stored d\<rparr>
           in case generateHTML env d (repoUrl a) of
                Inl e \<Rightarrow> (disk1, Inl e)
              | Inr page \<Rightarrow> (disk1\<lparr>visualization_html := Some page\<rparr>, Inr Complete)))"

text \<open>The \<open>try\<close> block up to the choice of the commits to analyse.\<close>

definition main_try :: "env \<Rightarrow> args \<Rightarrow> fs \<Rightarrow> Session option \<Rightarrow> fs \<times> (error + outcome)" where
  "main_try env a disk existingData0 =
     (case (if \<not> truthy (localRepoPath a) then cloneRepo env else Inr ()) of
        Inl e \<Rightarrow> (disk, Inl e)
      | Inr u \<Rightarrow>
          (let existingData =
                 (case existingData0 of
                    None \<Rightarrow> None
                  | Some d \<Rightarrow>
                      if truthy (last_commit_hash d)
                         \<and> \<not> commitExists env (the (last_commit_hash d))
                      then None else Some d)
           in case existingData of
                Some d \<Rightarrow>
                  if truthy (last_commit_hash d) then
                    (case getCommitHistory env ''main'' (last_commit_hash d) of
                       Inl e \<Rightarrow> (disk, Inl e)
                     | Inr commits \<Rightarrow>
                         if commits = [] then (disk, Inr UpToDate)
                         else main_analyze env a disk commits (results d))
                  else
                    (case getCommitHistory env ''main'' None of
                       Inl e \<Rightarrow> (disk, Inl e)
                     | Inr commits \<Rightarrow> main_analyze env a disk commits (results d))
              | None \<Rightarrow>
                  (case getCommitHistory env ''main'' None of
                     Inl e \<Rightarrow> (disk, Inl e)
                   | Inr commits \<Rightarrow> main_analyze env a disk commits [])))"

text \<open>
  The compatibility gates applied to the loaded session: a repository URL or a counter
  tool that is stored, truthy and different discards it.
\<close>

definition gated :: "args \<Rightarrow> fs \<Rightarrow> Session option" where
  "gated a disk =
     (if forceFull a then None
      else
        (case loadExistingData disk SCHEMA_VERSION of
           None \<Rightarrow> None
         | Some d \<Rightarrow>
             if truthy (repository_url d) \<and> repository_url d \<noteq> Some (repoUrl a) then None
             else if truthy (md_counter_tool d) \<and> md_counter_tool d \<noteq> Some (counterTool a)
             then None
             else Some d))"

text \<open>
  The whole run. Without \<open>--json-progress\<close> the retained session's last commit hash is
  printed with \<open>substring\<close>, which throws on \<open>null\<close> before the \<open>try\<close> block is entered;
  so does a failing \<open>git worktree add\<close>.
\<close>

definition main :: "env \<Rightarrow> args \<Rightarrow> fs \<Rightarrow> fs \<times> (error + outcome)" where
  "main env a disk =
     (let existingData = gated a disk in
      if existingData \<noteq> None \<and> \<not> jsonProgress a \<and> last_commit_hash (the existingData) = None
      then (disk, Inl TypeError)
      else
        (case (if truthy (localRepoPath a) then addWorktree env else Inr ()) of
           Inl e \<Rightarrow> (disk, Inl e)
         | Inr u \<Rightarrow> main_try env a disk existingData))"

section \<open>Notions used in the statements\<close>

text \<open>
  What \<open>analyzeCommits\<close> returns for the merged list of records \<open>rs\<close> once the loop is
  through: the records and the ranking of the languages observed in them.
\<close>

definition ranking :: "env \<Rightarrow> CommitRecord list \<Rightarrow> AnalysisData" where
  "ranking env rs =
     (if rs = [] then \<lparr>ad_results = [], ad_allLanguages = []\<rparr>
      else \<lparr>ad_results = rs,
            ad_allLanguages =
              Array_sort
                (languageCompare env (last rs)
                   (fold (\<lambda>e t. t + code (snd e)) (languages (last rs)) 0))
                (fold add_languages rs [])\<rparr>)"

text \<open>The session that \<open>main\<close> builds from the result of \<open>analyzeCommits\<close>.\<close>

definition build_session :: "args \<Rightarrow> AnalysisData \<Rightarrow> Session" where
  "build_session a ad =
     createDataStructure (repoUrl a) (ad_results ad) (ad_allLanguages ad) (counterInfo a ad)
       (counterTool a) SCHEMA_VERSION"

text \<open>
  A persisted session fails a compatibility gate: the file does not parse, the schema
  version is not the current one, or a stored non-empty repository URL or counter tool
  differs from the one of this run.
\<close>

definition gate_fails :: "args \<Rightarrow> fs \<Rightarrow> bool" where
  "gate_fails a disk =
     (case data_json disk of
        Absent \<Rightarrow> False
      | Unparseable \<Rightarrow> True
      | Stored d \<Rightarrow>
          schema_version d \<noteq> Some SCHEMA_VERSION
          \<or> (truthy (repository_url d) \<and> repository_url d \<noteq> Some (repoUrl a))
          \<or> (truthy (md_counter_tool d) \<and> md_counter_tool d \<noteq> Some (counterTool a)))"

text \<open>
  The same with the gates as the specification words them: a stored repository URL or
  counter tool that is present, empty or not, and different.
\<close>

definition gate_fails_stated :: "args \<Rightarrow> fs \<Rightarrow> bool" where
  "gate_fails_stated a disk =
     (case data_json disk of
        Absent \<Rightarrow> False
      | Unparseable \<Rightarrow> True
      | Stored d \<Rightarrow>
          schema_version d \<noteq> Some SCHEMA_VERSION
          \<or> (repository_url d \<noteq> None \<and> repository_url d \<noteq> Some (repoUrl a))
          \<or> (md_counter_tool d \<noteq> None \<and> md_counter_tool d \<noteq> Some (counterTool a)))"

text \<open>A run that retains no session: isolate or clone, list the whole branch, analyse.\<close>

definition fresh_run :: "env \<Rightarrow> args \<Rightarrow> fs \<Rightarrow> fs \<times> (error + outcome)" where
  "fresh_run env a disk =
     (case (if truthy (localRepoPath a) then addWorktree env else cloneRepo env) of
        Inl e \<Rightarrow> (disk, Inl e)
      | Inr u \<Rightarrow>
          (case getCommitHistory env ''main'' None of
             Inl e \<Rightarrow> (disk, Inl e)
           | Inr commits \<Rightarrow> main_analyze env a disk commits []))"

text \<open>
  The ranking as the specification words it. A language's share of the code lines of the
  final commit: 0 if the language is absent from it or if it has no code lines at all.
\<close>

definition final_share :: "CommitRecord \<Rightarrow> string \<Rightarrow> rat" where
  "final_share r l =
     (if 0 < (\<Sum>e\<leftarrow>languages r. code (snd e))
      then of_int (case map_of (languages r) l of None \<Rightarrow> 0 | Some st \<Rightarrow> code st)
             / of_int (\<Sum>e\<leftarrow>languages r. code (snd e))
      else 0)"

text \<open>\<open>a\<close> comes before \<open>b\<close>: a larger share, or the same share and the smaller name.\<close>

definition ranked_before :: "(string \<Rightarrow> string \<Rightarrow> int) \<Rightarrow> CommitRecord \<Rightarrow> string \<Rightarrow> string \<Rightarrow> bool" where
  "ranked_before lc r a b \<longleftrightarrow>
     final_share r b < final_share r a \<or> (final_share r a = final_share r b \<and> lc a b < 0)"

text \<open>
  The name comparison \<open>lc\<close> is a linear order on the names in \<open>S\<close>: zero exactly on equal
  names, antisymmetric and transitive.
\<close>

definition collates :: "(string \<Rightarrow> string \<Rightarrow> int) \<Rightarrow> string set \<Rightarrow> bool" where
  "collates lc S \<longleftrightarrow>
     (\<forall>a\<in>S. \<forall>b\<in>S. (lc a b = 0 \<longleftrightarrow> a = b) \<and> (lc a b < 0 \<longleftrightarrow> 0 < lc b a))
     \<and> (\<forall>a\<in>S. \<forall>b\<in>S. \<forall>c\<in>S. lc a b < 0 \<and> lc b c < 0 \<longrightarrow> lc a c < 0)"

text \<open>All languages observed in a list of records.\<close>

definition observed :: "CommitRecord list \<Rightarrow> string set" where
  "observed rs = (\<Union>r\<in>set rs. fst ` set (languages r))"

text \<open>The sum of the gains stored in the voice tuples of one frame and metric.\<close>

definition gain_sum :: "voice list \<Rightarrow> rat" where
  "gain_sum vs = (\<Sum>v\<leftarrow>vs. fst (snd v))"


text \<open>The commit hashes of the records in data.json.\<close>

definition written_commits :: "fs \<Rightarrow> string list" where
  "written_commits disk =
     (case data_json disk of Stored s \<Rightarrow> map commit (results s) | _ \<Rightarrow> [])"

text \<open>
  A remote branch of the given name exists: some line of the output of \<open>git branch -r\<close>
  is, apart from surrounding white space, \<open>origin/\<close> followed by the name.
\<close>

definition has_remote :: "string \<Rightarrow> string \<Rightarrow> bool" where
  "has_remote listing b \<longleftrightarrow> ''origin/'' @ b \<in> set (map trim (split (CHR 0x0A) listing))"

text \<open>
  What \<open>getCommitHistory\<close> returns once git log is run on branch \<open>b\<close>: the parsed lines of
  \<open>git log b\<close> (of \<open>git log afterCommit..b\<close> in incremental mode), or the error of a failing
  git log.
\<close>

definition log_on :: "env \<Rightarrow> string \<Rightarrow> string option \<Rightarrow> error + Commit list" where
  "log_on env b afterCommit =
     (let range = (if truthy afterCommit then the afterCommit @ ''..'' @ b else b) in
      case exec (git_log env range) False LogError of
        Inl e \<Rightarrow> Inl e
      | Inr out \<Rightarrow>
          map_err parse_log_line (filter (\<lambda>line. trim line \<noteq> []) (split (CHR 0x0A) out)))"


section \<open>An example repository\<close>

text \<open>
  A repository with five commits \<open>c1\<close> to \<open>c5\<close> on \<open>main\<close>, seen when it held the first
  three (\<open>env3\<close>) and when it held all five (\<open>env5\<close>).
\<close>

text \<open>
  Lexicographic order of strings by character code, the order of \<open><\<close> on JavaScript
  strings: negative when the first string comes first. On the names \<open>A\<close>, \<open>B\<close>, \<open>C\<close>, \<open>D\<close> of
  the example every collation agrees with it, and the example takes it as \<open>localeCompare\<close>.
\<close>

fun codeUnitCompare :: "string \<Rightarrow> string \<Rightarrow> int" where
  "codeUnitCompare [] [] = 0"
| "codeUnitCompare [] (y # ys) = - 1"
| "codeUnitCompare (x # xs) [] = 1"
| "codeUnitCompare (x # xs) (y # ys) =
     (if (of_char x :: nat) < of_char y then - 1
      else if (of_char y :: nat) < of_char x then 1
      else codeUnitCompare xs ys)"

text \<open>
  A collation that, like the host's \<open>localeCompare\<close>, compares letters without regard to
  case first (\<open>gitignore\<close> before \<open>Makefile\<close> before \<open>YAML\<close>), and puts the lower-case form
  first among names that differ in case only.
\<close>

definition lower :: "char \<Rightarrow> char" where
  "lower c =
     (if (of_char (CHR ''A'') :: nat) \<le> of_char c \<and> (of_char c :: nat) \<le> of_char (CHR ''Z'')
      then char_of ((of_char c :: nat) + 32) else c)"

definition hostCompare :: "string \<Rightarrow> string \<Rightarrow> int" where
  "hostCompare a b =
     (if codeUnitCompare (map lower a) (map lower b) \<noteq> 0
      then codeUnitCompare (map lower a) (map lower b)
      else - codeUnitCompare a b)"

definition scc_lang :: "string \<Rightarrow> int \<Rightarrow> int \<Rightarrow> scc_entry" where
  "scc_lang name n k =
     \<lparr>Name = name, Count = Some k, Blank = Some 0, Comment = Some 0, Code = Some n,
      Complexity = Some 0, Bytes = Some (10 * n), Lines = Some n\<rparr>"

definition cloc_lang :: "string \<Rightarrow> int \<Rightarrow> int \<Rightarrow> string \<times> cloc_stats" where
  "cloc_lang name n k =
     (name, \<lparr>nFiles = Some k, s_blank = Some 0, s_comment = Some 0, s_code = Some n\<rparr>)"

definition cloc_hdr :: cloc_header where
  "cloc_hdr =
     \<lparr>h_elapsed_seconds = Some 5, h_n_files = Some 4, h_n_lines = Some 400,
      h_files_per_second = Some (4 / 5), h_lines_per_second = Some 80,
      h_cloc_version = Some ''1.90''\<rparr>"

definition demo_run :: "string \<Rightarrow> invocation" where
  "demo_run h =
     \<lparr>clock_start = 1000, clock_end = 2000,
      scc_output =
        (if h = ''c1'' then Json [scc_lang ''A'' 100 1, scc_lang ''B'' 300 2, scc_lang ''C'' 0 1]
         else if h = ''c2'' then Garbled
         else if h = ''c3'' then Json [scc_lang ''B'' 150 2, scc_lang ''D'' 50 1]
         else if h = ''c4'' then NoOutput
         else if h = ''g1'' then
           Json [scc_lang ''Makefile'' 10 1, scc_lang ''YAML'' 10 1, scc_lang ''gitignore'' 10 1]
         else if h = ''e1'' then
           Json [scc_lang ''L1'' 1 1, scc_lang ''L2'' 1 1, scc_lang ''L3'' 1 1, scc_lang ''L4'' 1 1,
                 scc_lang ''L5'' 1 1, scc_lang ''L6'' 1 1, scc_lang ''L7'' 1 1, scc_lang ''L8'' 1 1]
         else Json [scc_lang ''A'' 999 1, scc_lang ''D'' 1 1]),
      cloc_output =
        (if h = ''c1'' then
           Json \<lparr>header = Some cloc_hdr,
                 entries = [cloc_lang ''header'' 0 0, cloc_lang ''A'' 100 1,
                            cloc_lang ''B'' 300 2, cloc_lang ''C'' 0 1, cloc_lang ''SUM'' 400 4]\<rparr>
         else if h = ''c2'' then Garbled
         else NoOutput)\<rparr>"

text \<open>The same counter runs started 800 ms earlier on the clock.\<close>

definition early_run :: "string \<Rightarrow> invocation" where
  "early_run h = (demo_run h)\<lparr>clock_start := 200, clock_end := 1200\<rparr>"

definition nl :: string where
  "nl = [CHR 0x0A]"

definition log3 :: string where
  "log3 = ''c1|2024-01-01|first'' @ nl @ ''c2|2024-01-02|second | with pipe'' @ nl
     @ ''c3|2024-01-03|third'' @ nl"

definition log45 :: string where
  "log45 = ''c4|2024-01-04|fourth'' @ nl @ ''c5|2024-01-05|fifth'' @ nl"

definition commits3 :: "Commit list" where
  "commits3 =
     [\<lparr>hash = ''c1'', date = ''2024-01-01'', message = ''first''\<rparr>,
      \<lparr>hash = ''c2'', date = ''2024-01-02'', message = ''second | with pipe''\<rparr>,
      \<lparr>hash = ''c3'', date = ''2024-01-03'', message = ''third''\<rparr>]"

definition commits45 :: "Commit list" where
  "commits45 =
     [\<lparr>hash = ''c4'', date = ''2024-01-04'', message = ''fourth''\<rparr>,
      \<lparr>hash = ''c5'', date = ''2024-01-05'', message = ''fifth''\<rparr>]"

definition env3 :: env where
  "env3 =
     \<lparr>worktree_add = Stdout [], git_clone = Stdout [],
      cat_file = (\<lambda>h. if h \<in> set [''c1'', ''c2'', ''c3''] then Stdout [] else Failed),
      branch_r = Stdout (''  origin/HEAD -> origin/main'' @ nl @ ''  origin/main'' @ nl),
      symbolic_ref = Stdout (''refs/remotes/origin/main'' @ nl),
      git_log = (\<lambda>r. if r = ''main'' then Stdout log3 else Failed),
      checkout = (\<lambda>h. Stdout []),
      counter_run = early_run,
      localeCompare = codeUnitCompare,
      ejs_render = True\<rparr>"

definition env5 :: env where
  "env5 =
     \<lparr>worktree_add = Stdout [], git_clone = Stdout [],
      cat_file =
        (\<lambda>h. if h \<in> set [''c1'', ''c2'', ''c3'', ''c4'', ''c5''] then Stdout [] else Failed),
      branch_r = Stdout (''  origin/HEAD -> origin/main'' @ nl @ ''  origin/main'' @ nl),
      symbolic_ref = Stdout (''refs/remotes/origin/main'' @ nl),
      git_log =
        (\<lambda>r. if r = ''main'' then Stdout (log3 @ log45)
             else if r = ''c3..main'' then Stdout log45
             else Failed),
      checkout = (\<lambda>h. Stdout []),
      counter_run = demo_run,
      localeCompare = codeUnitCompare,
      ejs_render = True\<rparr>"

text \<open>The same repository when the checkout of \<open>c2\<close> fails.\<close>

definition env5_broken :: env where
  "env5_broken = env5\<lparr>checkout := (\<lambda>h. if h = ''c2'' then Failed else Stdout [])\<rparr>"

text \<open>
  A cloned repository without commits: no remote branch is listed, no commit object
  exists, and git log fails on a branch that has no commit (exit status 128).
\<close>

definition env_empty :: env where
  "env_empty =
     \<lparr>worktree_add = Stdout [], git_clone = Stdout [],
      cat_file = (\<lambda>h. Failed),
      branch_r = Stdout [],
      symbolic_ref = Failed,
      git_log = (\<lambda>r. Failed),
      checkout = (\<lambda>h. Failed),
      counter_run = demo_run,
      localeCompare = codeUnitCompare,
      ejs_render = True\<rparr>"

text \<open>Remotes without \<open>main\<close> and \<open>master\<close>: one with a default branch \<open>trunk\<close>, one with \<open>master\<close> only.\<close>

definition env_trunk :: env where
  "env_trunk =
     env5\<lparr>branch_r := Stdout (''  origin/trunk'' @ nl),
          symbolic_ref := Stdout (''refs/remotes/origin/'' @ ''trunk'' @ nl),
          git_log := (\<lambda>r. if r = ''trunk'' then Stdout log3 else Failed)\<rparr>"

definition env_master_only :: env where
  "env_master_only = env5\<lparr>branch_r := Stdout (''  origin/master'' @ nl)\<rparr>"

definition args0 :: args where
  "args0 =
     \<lparr>repoUrl = ''https://example.org/r.git'', forceFull = False, localRepoPath = None,
      jsonProgress = False, counterTool = ''scc''\<rparr>"

definition disk0 :: fs where
  "disk0 = \<lparr>data_json = Absent, visualization_html = None\<rparr>"

text \<open>
  A stored session whose only record is the one of \<open>c3\<close>, with a given schema version and
  repository URL.
\<close>

definition stored3 :: "string \<Rightarrow> string \<Rightarrow> fs" where
  "stored3 schema url =
     \<lparr>data_json =
        Stored
          \<lparr>schema_version = Some schema, repository_url = Some url, total_commits = 1,
           md_counter_tool = Some ''scc'', md_counter_version = Some ''3.x'',
           last_commit_hash = Some ''c3'', last_commit_date = Some ''2024-01-03'',
           results = [commit_record env5 ''scc'' (last commits3)],
           allLanguages = [''B'', ''D''], audioData = []\<rparr>,
      visualization_html = None\<rparr>"

text \<open>
  The records and the ranking of the full pass over the five commits under scc, and those
  of a single commit \<open>e1\<close> holding eight languages of one line each.
\<close>

definition rs5 :: "CommitRecord list" where
  "rs5 = map (commit_record env5 ''scc'') (commits3 @ commits45)"

definition langs5 :: "string list" where
  "langs5 = ad_allLanguages (ranking env5 rs5)"

text \<open>
  A single commit \<open>g1\<close> with three languages of ten code lines each, on a host with the
  case-insensitive collation.
\<close>

definition env_host :: env where
  "env_host = env5\<lparr>localeCompare := hostCompare\<rparr>"

definition rsG :: "CommitRecord list" where
  "rsG = [commit_record env_host ''scc'' \<lparr>hash = ''g1'', date = ''2024-03-01'', message = ''tools''\<rparr>]"

definition rs8 :: "CommitRecord list" where
  "rs8 = [commit_record env5 ''scc'' \<lparr>hash = ''e1'', date = ''2024-02-01'', message = ''eight''\<rparr>]"

definition langs8 :: "string list" where
  "langs8 = ad_allLanguages (ranking env5 rs8)"

section \<open>The loop of analyzeCommits\<close>

lemma exec_Stdout: "p \<noteq> Failed \<Longrightarrow> \<exists>out. exec p ign e = Inr out"
  by (cases p) (simp_all add: exec_def)

lemma analyze_loop_results:
  "analyze_loop env tool cs st = Inr st' \<Longrightarrow>
     st' = (fst st @ map (commit_record env tool) cs,
            fold add_languages (map (commit_record env tool) cs) (snd st))"
proof (induction cs arbitrary: st)
  case Nil
  then show ?case by simp
next
  case (Cons c cs)
  let ?st1 = "(fst st @ [commit_record env tool c],
               add_languages (commit_record env tool c) (snd st))"
  from Cons.prems have "analyze_loop env tool cs ?st1 = Inr st'"
    by (simp add: Let_def split: sum.splits)
  then have "st' = (fst ?st1 @ map (commit_record env tool) cs,
                    fold add_languages (map (commit_record env tool) cs) (snd ?st1))"
    by (rule Cons.IH)
  then show ?case by simp
qed

lemma analyze_loop_ok:
  "\<forall>c\<in>set cs. checkout env (hash c) \<noteq> Failed \<Longrightarrow>
     analyze_loop env tool cs st =
       Inr (fst st @ map (commit_record env tool) cs,
            fold add_languages (map (commit_record env tool) cs) (snd st))"
proof (induction cs arbitrary: st)
  case Nil
  then show ?case by simp
next
  case (Cons c cs)
  from Cons.prems obtain out where
    "exec (checkout env (hash c)) False (CheckoutError (hash c)) = Inr out"
    using exec_Stdout by fastforce
  with Cons show ?case by (simp add: Let_def)
qed

lemma analyzeCommits_ranking:
  "analyzeCommits env cs existing tool = Inr ad \<Longrightarrow>
     ad = ranking env (existing @ map (commit_record env tool) cs)"
  by (auto simp: analyzeCommits_def ranking_def Let_def split: sum.splits if_splits
           dest!: analyze_loop_results)

lemma analyzeCommits_ok:
  "\<forall>c\<in>set cs. checkout env (hash c) \<noteq> Failed \<Longrightarrow>
     analyzeCommits env cs existing tool =
       Inr (ranking env (existing @ map (commit_record env tool) cs))"
  by (simp add: analyzeCommits_def analyze_loop_ok ranking_def Let_def)

lemma ranking_results [simp]: "ad_results (ranking env rs) = rs"
  by (simp add: ranking_def)

section \<open>Totals of a commit record\<close>

lemma fold_totals:
  "fold (\<lambda>e acc. case acc of (tLines, tFiles, tBytes) \<Rightarrow>
             (tLines + code (snd e), tFiles + files (snd e), tBytes + or0 (bytes (snd e))))
       langs (a, b, c)
   = (a + (\<Sum>e\<leftarrow>langs. code (snd e)),
      b + (\<Sum>e\<leftarrow>langs. files (snd e)),
      c + (\<Sum>e\<leftarrow>langs. or0 (bytes (snd e))))"
  by (induction langs arbitrary: a b c) simp_all

lemma commit_totals_sum:
  "commit_totals langs =
     ((\<Sum>e\<leftarrow>langs. code (snd e)), (\<Sum>e\<leftarrow>langs. files (snd e)),
      (\<Sum>e\<leftarrow>langs. or0 (bytes (snd e))))"
  by (simp add: commit_totals_def fold_totals)

lemma commit_record_totals:
  "totalLines (commit_record env tool c) = (\<Sum>e\<leftarrow>languages (commit_record env tool c). code (snd e))"
  "totalFiles (commit_record env tool c) = (\<Sum>e\<leftarrow>languages (commit_record env tool c). files (snd e))"
  "totalBytes (commit_record env tool c)
     = (\<Sum>e\<leftarrow>languages (commit_record env tool c). or0 (bytes (snd e)))"
  by (simp_all add: commit_record_def commit_totals_sum Let_def)

text \<open>
  C1. Every record that \<open>analyzeCommits\<close> appends (position \<open>i\<close> behind the retained
  records), under any counter tool and whatever the tool printed, stores as \<open>totalLines\<close>
  the sum of \<open>code\<close> over its languages, as \<open>totalFiles\<close> the sum of \<open>files\<close> and as
  \<open>totalBytes\<close> the sum of \<open>bytes\<close>, an absent \<open>bytes\<close> counting as 0.
\<close>

theorem C1_totals_invariant:
  assumes "analyzeCommits env commits existingResults tool = Inr ad"
    and "length existingResults \<le> i" and "i < length (ad_results ad)"
  shows "totalLines (ad_results ad ! i) = (\<Sum>e\<leftarrow>languages (ad_results ad ! i). code (snd e))
       \<and> totalFiles (ad_results ad ! i) = (\<Sum>e\<leftarrow>languages (ad_results ad ! i). files (snd e))
       \<and> totalBytes (ad_results ad ! i)
           = (\<Sum>e\<leftarrow>languages (ad_results ad ! i). or0 (bytes (snd e)))"
proof -
  have "ad_results ad = existingResults @ map (commit_record env tool) commits"
    using analyzeCommits_ranking [OF assms(1)] by simp
  with assms(2,3) show ?thesis
    by (simp add: nth_append commit_record_totals)
qed

text \<open>
  C1, at the first commit of the example repository under cloc, which reports no bytes.
\<close>

theorem C1_totals_invariant_witness:
  "analyzeCommits env5 commits3 [] ''cloc''
     = Inr (ranking env5 (map (commit_record env5 ''cloc'') commits3))
   \<and> totalLines (ad_results (ranking env5 (map (commit_record env5 ''cloc'') commits3)) ! 0) = 400
   \<and> (\<Sum>e\<leftarrow>languages (ad_results (ranking env5 (map (commit_record env5 ''cloc'') commits3)) ! 0).
         code (snd e)) = 400
   \<and> totalBytes (ad_results (ranking env5 (map (commit_record env5 ''cloc'') commits3)) ! 0)
       = (\<Sum>e\<leftarrow>languages (ad_results (ranking env5 (map (commit_record env5 ''cloc'') commits3)) ! 0).
            or0 (bytes (snd e)))"
proof -
  let ?ad = "ranking env5 (map (commit_record env5 ''cloc'') commits3)"
  have run: "analyzeCommits env5 commits3 [] ''cloc'' = Inr ?ad"
    by code_simp
  have le: "length ([] :: CommitRecord list) \<le> 0"
    by simp
  have len: "0 < length (ad_results ?ad)"
    by (simp add: commits3_def)
  have v: "totalLines (ad_results ?ad ! 0) = 400"
    by code_simp
  from C1_totals_invariant [OF run le len] run v
  show ?thesis by metis
qed

section \<open>Runs of main\<close>

lemma gated_Absent: "data_json disk = Absent \<Longrightarrow> gated a disk = None"
  by (simp add: gated_def loadExistingData_def)

lemma gate_fails_gated: "gate_fails a disk \<Longrightarrow> gated a disk = None"
  by (auto simp: gate_fails_def gated_def loadExistingData_def split: data_file.splits)

lemma main_analyze_cases:
  "main_analyze env a disk cs ex =
     (case analyzeCommits env cs ex (counterTool a) of
        Inl e \<Rightarrow> (disk, Inl e)
      | Inr ad \<Rightarrow>
          if ejs_render env
          then (disk\<lparr>data_json := Stored (build_session a ad),
                     visualization_html := Some (Html (build_session a ad) (repoUrl a))\<rparr>,
                Inr Complete)
          else (disk\<lparr>data_json := Stored (build_session a ad)\<rparr>, Inl HtmlError))"
  by (simp add: main_analyze_def build_session_def generateHTML_def Let_def split: sum.splits)

lemma main_fresh: "gated a disk = None \<Longrightarrow> main env a disk = fresh_run env a disk"
  by (simp add: main_def main_try_def fresh_run_def Let_def split: sum.splits)

lemma fresh_run_disk:
  "fresh_run env a disk = (d1, r) \<Longrightarrow> visualization_html disk2 = visualization_html disk \<Longrightarrow>
     \<exists>d2. fresh_run env a disk2 = (d2, r)
          \<and> ((d1 = disk \<and> d2 = disk2) \<or> d1 = d2)
          \<and> (r = Inr Complete \<longrightarrow> d1 = d2)"
  by (auto simp: fresh_run_def main_analyze_cases split: sum.splits if_splits)

lemma fresh_run_results:
  "fresh_run env a disk = (d1, Inr Complete) \<Longrightarrow>
     \<exists>commits. getCommitHistory env ''main'' None = Inr commits
        \<and> data_json d1
            = Stored (build_session a (ranking env (map (commit_record env (counterTool a)) commits)))"
  by (auto simp: fresh_run_def main_analyze_cases split: sum.splits if_splits
           dest!: analyzeCommits_ranking)

lemma build_session_fields [simp]:
  "results (build_session a ad) = ad_results ad"
  "allLanguages (build_session a ad) = ad_allLanguages ad"
  "audioData (build_session a ad) = computeAudioData (ad_results ad) (ad_allLanguages ad)"
  by (simp_all add: build_session_def createDataStructure_def)

text \<open>
  C5 (amended). If the persisted session fails a compatibility gate (the file does not
  parse, its schema version is not exactly the current one, or it stores a non-empty
  repository URL or counter tool different from this run's), the run ends as the run
  with no data.json does: with the same error or the same completion; when it completes,
  both leave the same files, and the stored results are exactly the records of the
  commits of the whole branch history.
\<close>

theorem C5_gate_failure_is_fresh_run:
  assumes "gate_fails a disk"
  shows "snd (main env a disk) = snd (main env a (disk\<lparr>data_json := Absent\<rparr>))
       \<and> (snd (main env a disk) = Inr Complete \<longrightarrow>
            fst (main env a disk) = fst (main env a (disk\<lparr>data_json := Absent\<rparr>))
            \<and> (\<exists>commits s. getCommitHistory env ''main'' None = Inr commits
                  \<and> data_json (fst (main env a disk)) = Stored s
                  \<and> results s = map (commit_record env (counterTool a)) commits))"
proof -
  let ?absent = "disk\<lparr>data_json := Absent\<rparr>"
  have m1: "main env a disk = fresh_run env a disk"
    using assms by (simp add: gate_fails_gated main_fresh)
  have m2: "main env a ?absent = fresh_run env a ?absent"
    by (simp add: gated_Absent main_fresh)
  obtain d1 r where r1: "fresh_run env a disk = (d1, r)"
    by (cases "fresh_run env a disk")
  from fresh_run_disk [OF r1, of ?absent] obtain d2 where
    r2: "fresh_run env a ?absent = (d2, r)" and same: "r = Inr Complete \<longrightarrow> d1 = d2"
    by auto
  have "r = Inr Complete \<longrightarrow>
          (\<exists>commits s. getCommitHistory env ''main'' None = Inr commits \<and> data_json d1 = Stored s
             \<and> results s = map (commit_record env (counterTool a)) commits)"
    using fresh_run_results [of env a disk d1] r1 by auto
  with m1 m2 r1 r2 same show ?thesis by simp
qed

text \<open>
  C5 (amended), at a stored session of schema version 2.1: all five commits are analysed.
\<close>

theorem C5_gate_failure_is_fresh_run_witness:
  "gate_fails args0 (stored3 ''2.1'' (repoUrl args0))
   \<and> snd (main env5 args0 (stored3 ''2.1'' (repoUrl args0))) = Inr Complete
   \<and> snd (main env5 args0 (stored3 ''2.1'' (repoUrl args0)))
       = snd (main env5 args0 ((stored3 ''2.1'' (repoUrl args0))\<lparr>data_json := Absent\<rparr>))
   \<and> fst (main env5 args0 (stored3 ''2.1'' (repoUrl args0)))
       = fst (main env5 args0 ((stored3 ''2.1'' (repoUrl args0))\<lparr>data_json := Absent\<rparr>))
   \<and> written_commits (fst (main env5 args0 (stored3 ''2.1'' (repoUrl args0))))
       = [''c1'', ''c2'', ''c3'', ''c4'', ''c5'']"
proof -
  have g: "gate_fails args0 (stored3 ''2.1'' (repoUrl args0))"
    by code_simp
  have c: "snd (main env5 args0 (stored3 ''2.1'' (repoUrl args0))) = Inr Complete"
    by code_simp
  have w: "written_commits (fst (main env5 args0 (stored3 ''2.1'' (repoUrl args0))))
             = [''c1'', ''c2'', ''c3'', ''c4'', ''c5'']"
    by code_simp
  from C5_gate_failure_is_fresh_run [OF g, of env5] g c w show ?thesis
    by metis
qed

text \<open>
  C5 as stated fails where the stored repository URL is present but empty: it differs
  from the URL of the run, yet the session is retained and only \<open>c4\<close> and \<open>c5\<close> are
  analysed, while the run without data.json analyses all five commits.
\<close>

theorem C5_stated_counterexample:
  "gate_fails_stated args0 (stored3 SCHEMA_VERSION [])
   \<and> written_commits (fst (main env5 args0 (stored3 SCHEMA_VERSION [])))
       = [''c3'', ''c4'', ''c5'']
   \<and> written_commits (fst (main env5 args0 ((stored3 SCHEMA_VERSION [])\<lparr>data_json := Absent\<rparr>)))
       = [''c1'', ''c2'', ''c3'', ''c4'', ''c5'']"
  by code_simp


text \<open>
  C10. Whatever error ends a run, except a failure to render the page (which happens
  after the walk), the files are left exactly as they were. When a run changes the files
  at all, data.json holds the results and the ranking that \<open>analyzeCommits\<close> returned and
  the audio data computed from them: nothing is written before analysis, merge, ranking
  and audio encoding are through.
\<close>

theorem C10_no_write_before_walk_ends:
  assumes "main env a disk = (disk', r)"
  shows "(\<forall>e. r = Inl e \<and> e \<noteq> HtmlError \<longrightarrow> disk' = disk)
       \<and> (disk' \<noteq> disk \<longrightarrow>
            (\<exists>commits existing ad s.
               analyzeCommits env commits existing (counterTool a) = Inr ad
               \<and> data_json disk' = Stored s
               \<and> results s = ad_results ad
               \<and> allLanguages s = ad_allLanguages ad
               \<and> audioData s = computeAudioData (ad_results ad) (ad_allLanguages ad)))"
proof -
  have an: "(\<forall>e. r = Inl e \<and> e \<noteq> HtmlError \<longrightarrow> d = disk)
       \<and> (d \<noteq> disk \<longrightarrow>
            (\<exists>commits existing ad. analyzeCommits env commits existing (counterTool a) = Inr ad
               \<and> data_json d = Stored (build_session a ad)))"
    if m: "main_analyze env a disk cs ex = (d, r)" for cs ex d r
  proof (cases "analyzeCommits env cs ex (counterTool a)")
    case (Inl e)
    with m show ?thesis by (simp add: main_analyze_cases)
  next
    case (Inr ad)
    with m have "data_json d = Stored (build_session a ad)"
      and "\<forall>e. r = Inl e \<and> e \<noteq> HtmlError \<longrightarrow> d = disk"
      by (auto simp: main_analyze_cases split: if_splits)
    with Inr show ?thesis by blast
  qed
  have "(\<forall>e. r = Inl e \<and> e \<noteq> HtmlError \<longrightarrow> disk' = disk)
       \<and> (disk' \<noteq> disk \<longrightarrow>
            (\<exists>commits existing ad. analyzeCommits env commits existing (counterTool a) = Inr ad
               \<and> data_json disk' = Stored (build_session a ad)))"
    using assms
    by (auto simp: main_def main_try_def Let_def split: sum.splits if_splits option.splits
             dest!: an)
  then show ?thesis
    by (metis build_session_fields)
qed

text \<open>
  C10, at a run whose checkout of \<open>c2\<close> fails: the stored session stays as it was.
\<close>

theorem C10_no_write_before_walk_ends_witness:
  "snd (main env5_broken args0 (stored3 ''2.1'' (repoUrl args0))) = Inl (CheckoutError ''c2'')
   \<and> CheckoutError ''c2'' \<noteq> HtmlError
   \<and> fst (main env5_broken args0 (stored3 ''2.1'' (repoUrl args0)))
       = stored3 ''2.1'' (repoUrl args0)"
proof -
  let ?disk = "stored3 ''2.1'' (repoUrl args0)"
  have err: "snd (main env5_broken args0 ?disk) = Inl (CheckoutError ''c2'')"
    by code_simp
  have "main env5_broken args0 ?disk
          = (fst (main env5_broken args0 ?disk), snd (main env5_broken args0 ?disk))"
    by simp
  from C10_no_write_before_walk_ends [OF this] err show ?thesis
    by simp
qed

section \<open>Resuming from a persisted session\<close>

lemma runCounter_tool:
  "counter_tool (cd_analysis (runCounter tool run)) = (if tool = ''scc'' then ''scc'' else ''cloc'')"
  by (simp add: runCounter_def runScc_def runCloc_def emptyAnalysis_def Let_def
           split: tool_output.splits prod.splits option.splits)

lemma commit_record_tool:
  "counter_tool (analysis (commit_record env tool c)) = (if tool = ''scc'' then ''scc'' else ''cloc'')"
  by (simp add: commit_record_def Let_def runCounter_tool split: prod.splits)

lemma commit_record_hash [simp]: "commit (commit_record env tool c) = hash c"
  by (simp add: commit_record_def Let_def split: prod.splits)

lemma commit_record_cong:
  "runCounter tool (counter_run env1 (hash c)) = runCounter tool (counter_run env2 (hash c)) \<Longrightarrow>
     commit_record env1 tool c = commit_record env2 tool c"
  by (simp add: commit_record_def)

lemma main_resume:
  assumes "gated a disk = Some d" and "truthy (last_commit_hash d)"
    and "commitExists env (the (last_commit_hash d))"
    and "getCommitHistory env ''main'' (last_commit_hash d) = Inr ys" and "ys \<noteq> []"
    and "(if truthy (localRepoPath a) then worktree_add env else git_clone env) \<noteq> Failed"
  shows "main env a disk = main_analyze env a disk ys (results d)"
proof -
  have hash: "last_commit_hash d \<noteq> None"
    using assms(2) by (auto simp: truthy_def split: option.splits)
  have prep: "(if truthy (localRepoPath a) then addWorktree env else Inr ()) = Inr ()"
             "(if \<not> truthy (localRepoPath a) then cloneRepo env else Inr ()) = Inr ()"
    using assms(6) exec_Stdout [of "worktree_add env" False WorktreeError]
      exec_Stdout [of "git_clone env" False CloneError]
    by (auto simp: addWorktree_def cloneRepo_def split: if_splits)
  show ?thesis
    using assms(1-5) hash prep by (auto simp: main_def main_try_def Let_def)
qed

lemma fresh_run_ok:
  assumes "getCommitHistory env ''main'' None = Inr cs"
    and "\<forall>c\<in>set cs. checkout env (hash c) \<noteq> Failed"
    and "(if truthy (localRepoPath a) then worktree_add env else git_clone env) \<noteq> Failed"
  shows "fresh_run env a disk = main_analyze env a disk cs []"
proof -
  have "(if truthy (localRepoPath a) then addWorktree env else cloneRepo env) = Inr ()"
    using assms(3) exec_Stdout [of "worktree_add env" False WorktreeError]
      exec_Stdout [of "git_clone env" False CloneError]
    by (auto simp: addWorktree_def cloneRepo_def split: if_splits)
  with assms(1) show ?thesis by (simp add: fresh_run_def)
qed

lemma main_analyze_ok:
  assumes "\<forall>c\<in>set cs. checkout env (hash c) \<noteq> Failed" and "ejs_render env"
  shows "main_analyze env a disk cs ex =
     (disk\<lparr>data_json :=
              Stored (build_session a (ranking env (ex @ map (commit_record env (counterTool a)) cs))),
           visualization_html :=
              Some (Html (build_session a (ranking env (ex @ map (commit_record env (counterTool a)) cs)))
                      (repoUrl a))\<rparr>,
      Inr Complete)"
  using assms by (simp add: main_analyze_cases analyzeCommits_ok)


lemma or_str_Some: "s \<noteq> [] \<Longrightarrow> or_str (Some s) d = s"
  by (simp add: or_str_def truthy_def)

lemma stored_counter_tool:
  assumes "xs \<noteq> []" and "tool = ''scc'' \<or> tool = ''cloc''" and "counterTool a = tool"
  shows "md_counter_tool (build_session a (ranking env (map (commit_record env' tool) xs))) = Some tool"
proof -
  let ?rs = "map (commit_record env' tool) xs"
  have "counter_tool (analysis (hd ?rs)) = tool"
    using assms(1,2) by (auto simp: hd_map commit_record_tool)
  moreover have "tool \<noteq> []"
    using assms(2) by auto
  ultimately have "fst (counterInfo a (ranking env ?rs)) = tool"
    using assms(1) by (simp add: counterInfo_def or_str_Some)
  then show ?thesis
    using \<open>tool \<noteq> []\<close> by (simp add: build_session_def createDataStructure_def or_str_Some)
qed

lemma stored_gates_pass:
  assumes "\<not> forceFull a" and "md_counter_tool (build_session a ad) = Some (counterTool a)"
  shows "gated a (disk\<lparr>data_json := Stored (build_session a ad), visualization_html := page\<rparr>)
           = Some (build_session a ad)"
proof -
  have "schema_version (build_session a ad) = Some SCHEMA_VERSION"
    and "repository_url (build_session a ad) = Some (repoUrl a)"
    by (simp_all add: build_session_def createDataStructure_def)
  moreover have "truthy (Some SCHEMA_VERSION)"
    by (simp add: truthy_def SCHEMA_VERSION_def)
  ultimately show ?thesis
    using assms by (simp add: gated_def loadExistingData_def)
qed

lemma stored_last_hash:
  "xs \<noteq> [] \<Longrightarrow>
     last_commit_hash (build_session a (ranking env (map (commit_record env' tool) xs)))
       = Some (hash (last xs))"
  by (simp add: build_session_def createDataStructure_def last_map)


text \<open>
  C2. Let the branch hold the commits \<open>xs\<close> at the first run and \<open>xs @ ys\<close> at the second,
  the counter's output for each commit of \<open>xs\<close> (what \<open>runCounter\<close> returns: the language
  statistics and the analysis metadata) being the same at both times, whatever the two
  clocks read, the last hash of \<open>xs\<close> existing in the repository and git log after it
  listing \<open>ys\<close>. Then the
  session written by analysing \<open>xs\<close>, persisting, and resuming over \<open>ys\<close> has the same
  \<open>results\<close>, \<open>allLanguages\<close> and \<open>audioData\<close> as the session written by one full pass over
  \<open>xs @ ys\<close>, and its results are the prior results followed by the records of \<open>ys\<close>.
\<close>

theorem C2_incremental_equivalence:
  assumes first: "getCommitHistory env1 ''main'' None = Inr xs"
    and full: "getCommitHistory env2 ''main'' None = Inr (xs @ ys)"
    and resume: "getCommitHistory env2 ''main'' (Some (hash (last xs))) = Inr ys"
    and ne: "xs \<noteq> []" "ys \<noteq> []"
    and valid: "hash (last xs) \<noteq> []" "commitExists env2 (hash (last xs))"
    and counter: "\<forall>c\<in>set xs. runCounter (counterTool a) (counter_run env1 (hash c))
                                = runCounter (counterTool a) (counter_run env2 (hash c))"
    and ok1: "(if truthy (localRepoPath a) then worktree_add env1 else git_clone env1) \<noteq> Failed"
      "\<forall>c\<in>set xs. checkout env1 (hash c) \<noteq> Failed" "ejs_render env1"
    and ok2: "(if truthy (localRepoPath a) then worktree_add env2 else git_clone env2) \<noteq> Failed"
      "\<forall>c\<in>set (xs @ ys). checkout env2 (hash c) \<noteq> Failed" "ejs_render env2"
    and args: "\<not> forceFull a" "counterTool a = ''scc'' \<or> counterTool a = ''cloc''"
    and absent: "data_json disk = Absent"
  shows "\<exists>prior merged whole.
           data_json (fst (main env1 a disk)) = Stored prior
         \<and> data_json (fst (main env2 a (fst (main env1 a disk)))) = Stored merged
         \<and> data_json (fst (main env2 a disk)) = Stored whole
         \<and> results merged = results whole
         \<and> allLanguages merged = allLanguages whole
         \<and> audioData merged = audioData whole
         \<and> results merged = results prior @ map (commit_record env2 (counterTool a)) ys"
proof -
  let ?tool = "counterTool a"
  let ?rs1 = "map (commit_record env2 ?tool) xs"
  let ?s1 = "build_session a (ranking env1 ?rs1)"
  let ?all = "build_session a (ranking env2 (?rs1 @ map (commit_record env2 ?tool) ys))"
  let ?disk1 = "disk\<lparr>data_json := Stored ?s1, visualization_html := Some (Html ?s1 (repoUrl a))\<rparr>"
  have same: "map (commit_record env1 ?tool) xs = ?rs1"
  proof (rule map_cong [OF refl])
    fix c assume "c \<in> set xs"
    with counter have "runCounter ?tool (counter_run env1 (hash c))
                         = runCounter ?tool (counter_run env2 (hash c))" by blast
    then show "commit_record env1 ?tool c = commit_record env2 ?tool c"
      by (rule commit_record_cong)
  qed
  have g0: "gated a disk = None"
    using absent by (rule gated_Absent)
  have "main env1 a disk = main_analyze env1 a disk xs []"
    using main_fresh [OF g0, of env1] fresh_run_ok [OF first ok1(2) ok1(1), of disk] by simp
  also have "\<dots> = (?disk1, Inr Complete)"
    using main_analyze_ok [OF ok1(2) ok1(3), of a disk "[]"] same by simp
  finally have run1: "main env1 a disk = (?disk1, Inr Complete)" .
  have gate: "gated a ?disk1 = Some ?s1"
    using args ne(1) by (intro stored_gates_pass stored_counter_tool) simp_all
  have last_hash: "last_commit_hash ?s1 = Some (hash (last xs))"
    using ne(1) by (rule stored_last_hash)
  have "main env2 a ?disk1 = main_analyze env2 a ?disk1 ys (results ?s1)"
    using gate valid resume ne(2) ok2(1)
    by (intro main_resume) (simp_all add: last_hash truthy_def)
  moreover have ys_ok: "\<forall>c\<in>set ys. checkout env2 (hash c) \<noteq> Failed"
    using ok2(2) by simp
  ultimately have run2: "data_json (fst (main env2 a ?disk1)) = Stored ?all"
    using main_analyze_ok [OF ys_ok ok2(3), of a ?disk1 "results ?s1"] by simp
  have "main env2 a disk = main_analyze env2 a disk (xs @ ys) []"
    using main_fresh [OF g0, of env2] fresh_run_ok [OF full ok2(2) ok2(1), of disk] by simp
  then have run3: "data_json (fst (main env2 a disk)) = Stored ?all"
    using main_analyze_ok [OF ok2(2) ok2(3), of a disk "[]"] by simp
  have "data_json (fst (main env1 a disk)) = Stored ?s1
         \<and> data_json (fst (main env2 a (fst (main env1 a disk)))) = Stored ?all
         \<and> data_json (fst (main env2 a disk)) = Stored ?all
         \<and> results ?all = results ?s1 @ map (commit_record env2 (counterTool a)) ys"
    using run2 run3 by (simp add: run1)
  then show ?thesis by blast
qed


text \<open>
  C2, at the example repository: three commits first, then the resumed run over \<open>c4\<close>
  and \<open>c5\<close>, against the full pass over all five. The clock readings of the first run
  differ from those of the second; the counter's output does not.
\<close>

theorem C2_incremental_equivalence_witness:
  "getCommitHistory env3 ''main'' None = Inr commits3
   \<and> getCommitHistory env5 ''main'' None = Inr (commits3 @ commits45)
   \<and> getCommitHistory env5 ''main'' (Some (hash (last commits3))) = Inr commits45
   \<and> commitExists env5 (hash (last commits3))
   \<and> written_commits (fst (main env3 args0 disk0)) = [''c1'', ''c2'', ''c3'']
   \<and> written_commits (fst (main env5 args0 (fst (main env3 args0 disk0))))
       = [''c1'', ''c2'', ''c3'', ''c4'', ''c5'']
   \<and> written_commits (fst (main env5 args0 (fst (main env3 args0 disk0))))
       = written_commits (fst (main env5 args0 disk0))"
proof -
  have first: "getCommitHistory env3 ''main'' None = Inr commits3"
    by code_simp
  have full: "getCommitHistory env5 ''main'' None = Inr (commits3 @ commits45)"
    by code_simp
  have resume: "getCommitHistory env5 ''main'' (Some (hash (last commits3))) = Inr commits45"
    by code_simp
  have ne: "commits3 \<noteq> []" "commits45 \<noteq> []"
    by (simp_all add: commits3_def commits45_def)
  have valid: "hash (last commits3) \<noteq> []" "commitExists env5 (hash (last commits3))"
    by code_simp+
  have counter: "\<forall>c\<in>set commits3. runCounter (counterTool args0) (counter_run env3 (hash c))
                                     = runCounter (counterTool args0) (counter_run env5 (hash c))"
    by code_simp
  have ok1: "(if truthy (localRepoPath args0) then worktree_add env3 else git_clone env3) \<noteq> Failed"
    "\<forall>c\<in>set commits3. checkout env3 (hash c) \<noteq> Failed" "ejs_render env3"
    by (simp_all add: env3_def)
  have ok2: "(if truthy (localRepoPath args0) then worktree_add env5 else git_clone env5) \<noteq> Failed"
    "\<forall>c\<in>set (commits3 @ commits45). checkout env5 (hash c) \<noteq> Failed" "ejs_render env5"
    by (simp_all add: env5_def)
  have args: "\<not> forceFull args0" "counterTool args0 = ''scc'' \<or> counterTool args0 = ''cloc''"
    by (simp_all add: args0_def)
  have absent: "data_json disk0 = Absent"
    by (simp add: disk0_def)
  have w1: "written_commits (fst (main env3 args0 disk0)) = [''c1'', ''c2'', ''c3'']"
    by code_simp
  have w2: "written_commits (fst (main env5 args0 (fst (main env3 args0 disk0))))
       = [''c1'', ''c2'', ''c3'', ''c4'', ''c5'']"
    by code_simp
  from C2_incremental_equivalence [OF first full resume ne valid counter ok1 ok2 args absent]
  have "written_commits (fst (main env5 args0 (fst (main env3 args0 disk0))))
       = written_commits (fst (main env5 args0 disk0))"
    by (auto simp: written_commits_def)
  with first full resume valid(2) w1 w2 show ?thesis by simp
qed

section \<open>The empty repository\<close>

text \<open>
  What the rest of the run provides for: a log that prints nothing gives no commits, and
  a run that retains no session then completes and stores empty \<open>results\<close>,
  \<open>allLanguages\<close> and \<open>audioData\<close>. The earlier single-file versions of the script reach
  this state on a repository without commits, since they run git log with \<open>ignoreError\<close>.
\<close>

lemma no_commit_lines:
  assumes "actualBranch env ''main'' = Inr b" and "git_log env b = Stdout out" and "trim out = []"
  shows "getCommitHistory env ''main'' None = Inr []"
proof -
  have "trim [] = []"
    by (simp add: trim_def)
  then show ?thesis
    by (simp add: getCommitHistory_def truthy_def exec_def assms)
qed

lemma empty_fresh_run:
  assumes "gated a disk = None" and "getCommitHistory env ''main'' None = Inr []"
    and "(if truthy (localRepoPath a) then worktree_add env else git_clone env) \<noteq> Failed"
    and "ejs_render env"
  shows "snd (main env a disk) = Inr Complete
       \<and> (\<exists>s. data_json (fst (main env a disk)) = Stored s
              \<and> results s = [] \<and> allLanguages s = [] \<and> audioData s = [])"
proof -
  have none: "\<forall>c\<in>set ([] :: Commit list). checkout env (hash c) \<noteq> Failed"
    by simp
  have "main env a disk = main_analyze env a disk [] []"
    using main_fresh [OF assms(1), of env] fresh_run_ok [OF assms(2) none assms(3), of disk]
    by simp
  then show ?thesis
    using main_analyze_ok [OF none assms(4), of a disk "[]"]
    by (simp add: ranking_def computeAudioData_def)
qed

text \<open>
  C7 (the failing input). On a repository without commits git log fails, and
  \<open>getCommitHistory\<close> runs it without \<open>ignoreError\<close>: the run ends in the error of the log
  command and writes nothing, where the empty \<open>results\<close>, \<open>allLanguages\<close> and \<open>audioData\<close>
  were to be stored.
\<close>

theorem C7_empty_repository_throws:
  "actualBranch env_empty ''main'' = Inr ''main''
   \<and> git_log env_empty ''main'' = Failed
   \<and> getCommitHistory env_empty ''main'' None = Inl LogError
   \<and> main env_empty args0 disk0 = (disk0, Inl LogError)"
  by code_simp

section \<open>Elapsed time of a counter run\<close>

text \<open>
  C8 as stated fails under cloc: the clock readings around the run are one second apart,
  the header printed by cloc says 5, and the record stores 5.
\<close>

theorem C8_stated_counterexample:
  "elapsed_seconds (analysis (commit_record env5 ''cloc'' (hd commits3))) = 5
   \<and> h_elapsed_seconds cloc_hdr = Some 5
   \<and> (of_int (clock_end (counter_run env5 ''c1'') - clock_start (counter_run env5 ''c1'')) / 1000 :: rat) = 1"
  by code_simp

text \<open>
  C8 (amended). Under scc the recorded \<open>elapsed_seconds\<close> is the difference of the
  adapter's two clock readings, or 0 when the output of scc makes parsing throw; under
  cloc it is the \<open>elapsed_seconds\<close> of the header that cloc printed, or 0 when there is
  none.
\<close>

theorem C8_elapsed_seconds:
  "elapsed_seconds (analysis (commit_record env ''scc'' c))
     = (if scc_output (counter_run env (hash c)) = Garbled then 0
        else of_int (clock_end (counter_run env (hash c)) - clock_start (counter_run env (hash c))) / 1000)
   \<and> elapsed_seconds (analysis (commit_record env ''cloc'' c))
     = (case cloc_output (counter_run env (hash c)) of
          Json d \<Rightarrow> (case header d of Some h \<Rightarrow> or0 (h_elapsed_seconds h) | None \<Rightarrow> 0)
        | _ \<Rightarrow> 0)"
  by (simp add: commit_record_def runCounter_def runScc_def runCloc_def emptyAnalysis_def Let_def
        split: prod.splits tool_output.splits option.splits)

text \<open>C8 (amended), at the first two commits of the example repository.\<close>

theorem C8_elapsed_seconds_witness:
  "elapsed_seconds (analysis (commit_record env5 ''scc'' (hd commits3))) = 1
   \<and> elapsed_seconds (analysis (commit_record env5 ''scc'' (hd (tl commits3)))) = 0
   \<and> elapsed_seconds (analysis (commit_record env5 ''cloc'' (hd commits3))) = 5"
proof -
  have "scc_output (counter_run env5 (hash (hd commits3))) \<noteq> Garbled"
       "scc_output (counter_run env5 (hash (hd (tl commits3)))) = Garbled"
       "(of_int (clock_end (counter_run env5 (hash (hd commits3)))
           - clock_start (counter_run env5 (hash (hd commits3)))) / 1000 :: rat) = 1"
       "(case cloc_output (counter_run env5 (hash (hd commits3))) of
          Json d \<Rightarrow> (case header d of Some h \<Rightarrow> or0 (h_elapsed_seconds h) | None \<Rightarrow> 0)
        | _ \<Rightarrow> 0) = (5 :: rat)"
    by code_simp+
  with C8_elapsed_seconds [of env5 "hd commits3"] C8_elapsed_seconds [of env5 "hd (tl commits3)"]
  show ?thesis by simp
qed

section \<open>Branch resolution\<close>

text \<open>
  C9 as stated fails for a requested branch other than \<open>main\<close>: with \<open>develop\<close> requested
  and only \<open>origin/master\<close> on the remote (no remote branch \<open>develop\<close>, a remote branch
  \<open>master\<close>), git log is run on \<open>develop\<close> (and fails).
\<close>

theorem C9_stated_counterexample:
  "exec (branch_r env_master_only) False BranchListError = Inr ''origin/master''
   \<and> \<not> str_includes ''origin/master'' ''origin/develop''
   \<and> str_includes ''origin/master'' ''origin/master''
   \<and> branch_r env_master_only = Stdout (''  origin/master'' @ nl)
   \<and> has_remote (''  origin/master'' @ nl) ''master''
   \<and> \<not> has_remote (''  origin/master'' @ nl) ''develop''
   \<and> actualBranch env_master_only ''develop'' = Inr ''develop''
   \<and> getCommitHistory env_master_only ''develop'' None = log_on env_master_only ''develop'' None
   \<and> getCommitHistory env_master_only ''develop'' None = Inl LogError"
  by code_simp

text \<open>Once the branch is resolved, \<open>getCommitHistory\<close> is git log on that branch.\<close>

lemma getCommitHistory_log_on:
  "actualBranch env branch = Inr b \<Longrightarrow> getCommitHistory env branch afterCommit = log_on env b afterCommit"
  by (simp add: getCommitHistory_def log_on_def)

lemma starts_with_append: "starts_with (w @ q) w"
  by (induction w) simp_all

lemma str_includes_infix: "str_includes (p @ w @ q) w"
proof (induction p)
  case Nil
  show ?case
  proof (cases "w @ q")
    case Nil
    then show ?thesis by simp
  next
    case (Cons x xs)
    with starts_with_append [of w q] show ?thesis by simp
  qed
next
  case (Cons x p)
  then show ?case by simp
qed

lemma split_nonempty: "split c s \<noteq> []"
  by (induction s) (simp_all split: list.splits)

lemma split_first_prefix: "split c s = w # ws \<Longrightarrow> \<exists>q. s = w @ q"
proof (induction s arbitrary: w ws)
  case Nil
  then show ?case by simp
next
  case (Cons x s)
  show ?case
  proof (cases "x = c")
    case True
    with Cons.prems show ?thesis by simp
  next
    case False
    obtain w' ws' where sp: "split c s = w' # ws'"
      using split_nonempty [of c s] by (cases "split c s") simp_all
    from Cons.IH [OF sp] obtain q where "s = w' @ q" by blast
    moreover from False sp Cons.prems have "w = x # w'" by simp
    ultimately show ?thesis by simp
  qed
qed

lemma split_piece: "line \<in> set (split c s) \<Longrightarrow> \<exists>p q. s = p @ line @ q"
proof (induction s arbitrary: line)
  case Nil
  then show ?case by simp
next
  case (Cons x s)
  have later: "\<exists>p q. x # s = p @ line @ q" if "line \<in> set (split c s)"
  proof -
    from Cons.IH [OF that] obtain p q where "s = p @ line @ q" by blast
    then have "x # s = (x # p) @ line @ q" by simp
    then show ?thesis by blast
  qed
  show ?case
  proof (cases "x = c")
    case True
    with Cons.prems have "line = [] \<or> line \<in> set (split c s)"
      by simp
    then show ?thesis
    proof
      assume "line = []"
      then have "x # s = [] @ line @ (x # s)" by simp
      then show ?thesis by blast
    qed (rule later)
  next
    case False
    obtain w ws where sp: "split c s = w # ws"
      using split_nonempty [of c s] by (cases "split c s") simp_all
    with False Cons.prems have "line = x # w \<or> line \<in> set ws"
      by simp
    then show ?thesis
    proof
      assume l: "line = x # w"
      from split_first_prefix [OF sp] obtain q where "s = w @ q" by blast
      with l have "x # s = [] @ line @ q" by simp
      then show ?thesis by blast
    next
      assume "line \<in> set ws"
      then have "line \<in> set (split c s)" using sp by simp
      then show ?thesis by (rule later)
    qed
  qed
qed

lemma trim_infix: "\<exists>p q. s = p @ trim s @ q"
proof -
  let ?d = "dropWhile is_ws s"
  have "s = takeWhile is_ws s @ ?d"
    by simp
  moreover have "?d = trim s @ rev (takeWhile is_ws (rev ?d))"
  proof -
    have "rev (dropWhile is_ws (rev ?d)) @ rev (takeWhile is_ws (rev ?d))
            = rev (takeWhile is_ws (rev ?d) @ dropWhile is_ws (rev ?d))"
      by (rule rev_append [symmetric])
    also have "\<dots> = rev (rev ?d)"
      by (simp only: takeWhile_dropWhile_id)
    also have "\<dots> = ?d"
      by (rule rev_rev_ident)
    finally show ?thesis
      unfolding trim_def by (rule sym)
  qed
  ultimately have "s = takeWhile is_ws s @ trim s @ rev (takeWhile is_ws (rev ?d))"
    by simp
  then show ?thesis by blast
qed

lemma dropWhile_infix:
  assumes "w \<noteq> []" and "\<not> P (hd w)"
  shows "\<exists>p'. dropWhile P (p @ w @ q) = p' @ w @ q"
proof (induction p)
  case Nil
  from assms have "dropWhile P (w @ q) = w @ q"
    by (cases w) simp_all
  then have "dropWhile P ([] @ w @ q) = [] @ w @ q" by simp
  then show ?case by blast
next
  case (Cons x p)
  show ?case
  proof (cases "P x")
    case True
    with Cons show ?thesis by simp
  next
    case False
    then have "dropWhile P ((x # p) @ w @ q) = (x # p) @ w @ q" by simp
    then show ?thesis by blast
  qed
qed

lemma trim_keeps_infix:
  assumes "w \<noteq> []" and "\<not> is_ws (hd w)" and "\<not> is_ws (last w)"
  shows "\<exists>p' q'. trim (p @ w @ q) = p' @ w @ q'"
proof -
  from dropWhile_infix [where P = is_ws and w = w and p = p and q = q, OF assms(1,2)] obtain p' where
    front: "dropWhile is_ws (p @ w @ q) = p' @ w @ q" by blast
  have "rev w \<noteq> []" and "\<not> is_ws (hd (rev w))"
    using assms(1,3) by (simp_all add: hd_rev)
  from dropWhile_infix [where P = is_ws and w = "rev w" and p = "rev q" and q = "rev p'", OF this]
  obtain q' where
    "dropWhile is_ws (rev q @ rev w @ rev p') = q' @ rev w @ rev p'" by blast
  then have "trim (p @ w @ q) = p' @ w @ rev q'"
    by (simp add: trim_def front)
  then show ?thesis by blast
qed

lemma has_remote_listed:
  assumes "has_remote listing b" and "b \<noteq> []" and "\<not> is_ws (last b)"
  shows "str_includes (trim listing) (''origin/'' @ b)"
proof -
  let ?w = "''origin/'' @ b"
  from assms(1) obtain line where line: "line \<in> set (split (CHR 0x0A) listing)" "trim line = ?w"
    unfolding has_remote_def by auto
  from split_piece [OF line(1)] obtain p q where "listing = p @ line @ q" by blast
  moreover from trim_infix [of line] line(2) obtain p1 q1 where "line = p1 @ ?w @ q1" by metis
  ultimately have l: "listing = (p @ p1) @ ?w @ (q1 @ q)"
    by simp
  have "?w \<noteq> []" and "\<not> is_ws (hd ?w)" and "\<not> is_ws (last ?w)"
    using assms(2,3) by (simp_all add: is_ws_def)
  from trim_keeps_infix [where w = ?w and p = "p @ p1" and q = "q1 @ q", OF this] l obtain p' q' where
    "trim listing = p' @ ?w @ q'" by metis
  then show ?thesis
    by (simp only: str_includes_infix)
qed

text \<open>Strings without white space at their ends are kept by \<open>trim\<close>.\<close>

lemma dropWhile_keep: "xs \<noteq> [] \<Longrightarrow> \<not> P (hd xs) \<Longrightarrow> dropWhile P (xs @ ys) = xs @ ys"
  by (cases xs) simp_all

lemma trim_keep:
  assumes "s \<noteq> []" and "\<not> is_ws (hd s)" and "\<not> is_ws (last s)"
  shows "trim s = s" and "trim (s @ nl) = s"
proof -
  have tail_kept: "dropWhile is_ws (rev s) = rev s"
    using assms(1,3) dropWhile_keep [of "rev s" is_ws "[]"] by (simp add: hd_rev)
  show "trim s = s"
    using assms(1,2) dropWhile_keep [of s is_ws "[]"] tail_kept by (simp add: trim_def)
  have "dropWhile is_ws (s @ nl) = s @ nl"
    using assms(1,2) by (rule dropWhile_keep)
  moreover have "dropWhile is_ws (rev (s @ nl)) = rev s"
    using tail_kept by (simp add: nl_def is_ws_def)
  ultimately show "trim (s @ nl) = s"
    by (simp add: trim_def)
qed

lemma ref_ends:
  assumes "name \<noteq> []" and "\<forall>c\<in>set name. \<not> is_ws c"
  shows "''refs/remotes/origin/'' @ name \<noteq> []"
    and "\<not> is_ws (hd (''refs/remotes/origin/'' @ name))"
    and "\<not> is_ws (last (''refs/remotes/origin/'' @ name))"
  using assms by (simp_all add: is_ws_def)

lemma match_origin_ref:
  assumes "name \<noteq> []" and "\<forall>c\<in>set name. \<not> is_ws c"
  shows "match_origin (''refs/remotes/origin/'' @ name) = Some name"
proof -
  have "\<forall>c\<in>set name. \<not> line_end c"
    using assms(2) by (auto simp: is_ws_def line_end_def)
  then have tw: "takeWhile (\<lambda>c. \<not> line_end c) name = name"
    by simp
  show ?thesis
    by (simp add: Let_def tw assms(1))
qed

text \<open>
  The branch chosen by \<open>getCommitHistory\<close>, in terms of the test the code makes: whether the
  trimmed output of \<open>git branch -r\<close> contains the text \<open>origin/main\<close>, respectively
  \<open>origin/master\<close>.
\<close>

lemma actualBranch_cases:
  assumes "branch_r env = Stdout listing"
  shows "(\<exists>b. actualBranch env branch = Inr b)
       \<and> (branch \<noteq> ''main'' \<longrightarrow> actualBranch env branch = Inr branch)
       \<and> (str_includes (trim listing) ''origin/main'' \<longrightarrow> actualBranch env ''main'' = Inr ''main'')
       \<and> (\<not> str_includes (trim listing) ''origin/main'' \<and> str_includes (trim listing) ''origin/master''
            \<longrightarrow> actualBranch env ''main'' = Inr ''master'')
       \<and> (\<not> str_includes (trim listing) ''origin/main''
            \<and> \<not> str_includes (trim listing) ''origin/master''
            \<and> symbolic_ref env = Stdout (''refs/remotes/origin/'' @ name @ nl)
            \<and> name \<noteq> [] \<and> (\<forall>c\<in>set name. \<not> is_ws c)
            \<longrightarrow> actualBranch env ''main'' = Inr name)
       \<and> (\<not> str_includes (trim listing) ''origin/main''
            \<and> \<not> str_includes (trim listing) ''origin/master''
            \<and> symbolic_ref env = Failed
            \<longrightarrow> actualBranch env ''main'' = Inr ''main'')"
proof -
  have ex: "exec (branch_r env) False BranchListError = Inr (trim listing)"
    using assms by (simp add: exec_def)
  have total: "\<exists>b. actualBranch env branch = Inr b"
    using assms by (cases "symbolic_ref env")
       (auto simp: actualBranch_def exec_def Let_def split: option.splits)
  have named: "actualBranch env ''main'' = Inr name"
    if "\<not> str_includes (trim listing) ''origin/main''"
      and "\<not> str_includes (trim listing) ''origin/master''"
      and "symbolic_ref env = Stdout (''refs/remotes/origin/'' @ name @ nl)"
      and "name \<noteq> []" and "\<forall>c\<in>set name. \<not> is_ws c"
  proof -
    let ?ref = "''refs/remotes/origin/'' @ name"
    note ends = ref_ends [OF that(4,5)]
    have t: "trim (''refs/remotes/origin/'' @ name @ nl) = ?ref"
      using trim_keep(2) [OF ends] by (simp only: append_assoc)
    have tt: "trim ?ref = ?ref"
      using ends by (rule trim_keep(1))
    have m: "match_origin ?ref = Some name"
      using that(4,5) by (rule match_origin_ref)
    have e: "exec (symbolic_ref env) True TypeError = Inr ?ref"
      unfolding exec_def that(3) by (simp only: proc.case t)
    show ?thesis
      unfolding actualBranch_def ex e
      using that(1,2) ends(1)
      by (simp only: Let_def tt m sum.case option.case simp_thms if_True if_False)
  qed
  have other: "branch \<noteq> ''main'' \<longrightarrow> actualBranch env branch = Inr branch"
    unfolding actualBranch_def ex by (simp add: Let_def)
  have main_there: "str_includes (trim listing) ''origin/main'' \<longrightarrow> actualBranch env ''main'' = Inr ''main''"
    unfolding actualBranch_def ex by (simp add: Let_def)
  have master: "\<not> str_includes (trim listing) ''origin/main'' \<and> str_includes (trim listing) ''origin/master''
            \<longrightarrow> actualBranch env ''main'' = Inr ''master''"
    unfolding actualBranch_def ex by (simp add: Let_def)
  have unresolved: "\<not> str_includes (trim listing) ''origin/main''
            \<and> \<not> str_includes (trim listing) ''origin/master''
            \<and> symbolic_ref env = Failed
            \<longrightarrow> actualBranch env ''main'' = Inr ''main''"
    unfolding actualBranch_def ex by (simp add: Let_def exec_def)
  show ?thesis
    using total named other main_there master unresolved by blast
qed

text \<open>
  C9 (amended): let the output of \<open>git branch -r\<close> contain the text \<open>origin/main\<close> only if
  a remote branch \<open>main\<close> is listed, and the text \<open>origin/master\<close> only if a remote branch
  \<open>master\<close> is listed. Then \<open>getCommitHistory\<close> resolves exactly one branch and returns
  what git log gives on it: a requested name other than \<open>main\<close> is used as given, with no
  existence check and no fallback; for \<open>main\<close> requested, git log is run on \<open>main\<close> if a
  remote branch \<open>main\<close> exists, otherwise on \<open>master\<close> if a remote branch \<open>master\<close>
  exists, otherwise on the branch the remote's symbolic default-branch reference names,
  and on \<open>main\<close> itself if that reference cannot be resolved.
\<close>

theorem C9_branch_resolution:
  assumes listing: "branch_r env = Stdout listing"
    and main_exact: "str_includes (trim listing) ''origin/main'' \<longrightarrow> has_remote listing ''main''"
    and master_exact: "str_includes (trim listing) ''origin/master'' \<longrightarrow> has_remote listing ''master''"
  shows "(\<exists>b. actualBranch env branch = Inr b
              \<and> getCommitHistory env branch afterCommit = log_on env b afterCommit)
       \<and> (branch \<noteq> ''main'' \<longrightarrow> getCommitHistory env branch afterCommit = log_on env branch afterCommit)
       \<and> (has_remote listing ''main''
            \<longrightarrow> getCommitHistory env ''main'' afterCommit = log_on env ''main'' afterCommit)
       \<and> (\<not> has_remote listing ''main'' \<and> has_remote listing ''master''
            \<longrightarrow> getCommitHistory env ''main'' afterCommit = log_on env ''master'' afterCommit)
       \<and> (\<not> has_remote listing ''main'' \<and> \<not> has_remote listing ''master''
            \<and> symbolic_ref env = Stdout (''refs/remotes/origin/'' @ name @ nl)
            \<and> name \<noteq> [] \<and> (\<forall>c\<in>set name. \<not> is_ws c)
            \<longrightarrow> getCommitHistory env ''main'' afterCommit = log_on env name afterCommit)
       \<and> (\<not> has_remote listing ''main'' \<and> \<not> has_remote listing ''master''
            \<and> symbolic_ref env = Failed
            \<longrightarrow> getCommitHistory env ''main'' afterCommit = log_on env ''main'' afterCommit)"
proof -
  have "str_includes (trim listing) (''origin/'' @ ''main'')" if "has_remote listing ''main''"
    using that by (rule has_remote_listed) (simp_all add: is_ws_def)
  then have m1: "has_remote listing ''main'' \<Longrightarrow> str_includes (trim listing) ''origin/main''"
    by simp
  have "str_includes (trim listing) (''origin/'' @ ''master'')" if "has_remote listing ''master''"
    using that by (rule has_remote_listed) (simp_all add: is_ws_def)
  then have m2: "has_remote listing ''master'' \<Longrightarrow> str_includes (trim listing) ''origin/master''"
    by simp
  have main_iff: "str_includes (trim listing) ''origin/main'' \<longleftrightarrow> has_remote listing ''main''"
    using m1 main_exact by blast
  have master_iff: "str_includes (trim listing) ''origin/master'' \<longleftrightarrow> has_remote listing ''master''"
    using m2 master_exact by blast
  note cases = actualBranch_cases [OF listing, of branch name, unfolded main_iff master_iff]
  note on = getCommitHistory_log_on [of env _ _ afterCommit]
  from cases on show ?thesis
    by blast
qed

text \<open>
  C9 (amended), at a remote with a branch \<open>main\<close>, and at a remote whose only and default
  branch is \<open>trunk\<close>.
\<close>

theorem C9_branch_resolution_witness:
  "getCommitHistory env5 ''main'' None = log_on env5 ''main'' None
   \<and> log_on env5 ''main'' None = Inr (commits3 @ commits45)
   \<and> getCommitHistory env_trunk ''main'' None = log_on env_trunk ''trunk'' None
   \<and> log_on env_trunk ''trunk'' None = Inr commits3
   \<and> getCommitHistory env_trunk ''develop'' None = log_on env_trunk ''develop'' None
   \<and> log_on env_trunk ''develop'' None = Inl LogError"
proof -
  let ?l5 = "''  origin/HEAD -> origin/main'' @ nl @ ''  origin/main'' @ nl"
  let ?lt = "''  origin/trunk'' @ nl"
  have br5: "branch_r env5 = Stdout ?l5"
    by (simp add: env5_def)
  have h5: "has_remote ?l5 ''main''" "\<not> str_includes (trim ?l5) ''origin/master''"
    by code_simp+
  have brt: "branch_r env_trunk = Stdout ?lt"
    by (simp add: env_trunk_def)
  have sym: "symbolic_ref env_trunk = Stdout (''refs/remotes/origin/'' @ ''trunk'' @ nl)"
    by (simp add: env_trunk_def)
  have no: "\<not> str_includes (trim ?lt) ''origin/main''" "\<not> str_includes (trim ?lt) ''origin/master''"
    "\<not> has_remote ?lt ''main''" "\<not> has_remote ?lt ''master''"
    by code_simp+
  have name: "''trunk'' \<noteq> []" "\<forall>c\<in>set ''trunk''. \<not> is_ws c" "''develop'' \<noteq> ''main''"
    by (simp_all add: is_ws_def)
  have logs: "log_on env5 ''main'' None = Inr (commits3 @ commits45)"
    "log_on env_trunk ''trunk'' None = Inr commits3"
    "log_on env_trunk ''develop'' None = Inl LogError"
    by code_simp+
  from C9_branch_resolution [OF br5, of "''main''" None "''trunk''"] h5
  have a: "getCommitHistory env5 ''main'' None = log_on env5 ''main'' None"
    by blast
  from C9_branch_resolution [OF brt, of "''develop''" None "''trunk''"] sym no name
  have b: "getCommitHistory env_trunk ''main'' None = log_on env_trunk ''trunk'' None"
    "getCommitHistory env_trunk ''develop'' None = log_on env_trunk ''develop'' None"
    by blast+
  from a b logs show ?thesis
    by simp
qed

section \<open>Rounding\<close>

lemma Math_round_between:
  assumes "of_int a \<le> y" and "y \<le> of_int b"
  shows "of_int a \<le> Math_round y" and "Math_round y \<le> of_int b"
proof -
  have "a \<le> \<lfloor>y + 1 / 2\<rfloor>"
    using assms(1) by (simp add: le_floor_iff)
  then show "of_int a \<le> Math_round y"
    by (simp add: Math_round_def)
  have "y + 1 / 2 < of_int (b + 1)"
    using assms(2) by simp
  then have "\<lfloor>y + 1 / 2\<rfloor> < b + 1"
    by (simp only: floor_less_iff)
  then show "Math_round y \<le> of_int b"
    by (simp add: Math_round_def)
qed

lemma Math_round_near: "\<bar>Math_round y - y\<bar> \<le> 1 / 2"
proof -
  have lo: "of_int \<lfloor>y + 1 / 2\<rfloor> \<le> y + 1 / 2"
    by (rule of_int_floor_le)
  have hi: "y + 1 / 2 < of_int \<lfloor>y + 1 / 2\<rfloor> + 1"
    using floor_correct [of "y + 1 / 2"] by simp
  show ?thesis
    unfolding Math_round_def using lo hi by linarith
qed

lemma round2_near: "\<bar>Math_round (g * 100) / 100 - g\<bar> \<le> 5 / 1000"
proof -
  have "\<bar>Math_round (g * 100) / 100 - g\<bar> = \<bar>Math_round (g * 100) - g * 100\<bar> / 100"
    by (simp add: abs_if field_simps)
  also have "\<dots> \<le> (1 / 2) / 100"
    using Math_round_near [of "g * 100"] by (simp add: divide_right_mono)
  finally show ?thesis by simp
qed

lemma round2_unit:
  assumes "0 \<le> g" and "g \<le> 1"
  shows "0 \<le> Math_round (g * 100) / 100" and "Math_round (g * 100) / 100 \<le> 1"
proof -
  have "of_int 0 \<le> g * 100" and "g * 100 \<le> of_int 100"
    using assms by simp_all
  from Math_round_between [OF this]
  show "0 \<le> Math_round (g * 100) / 100" and "Math_round (g * 100) / 100 \<le> 1"
    by simp_all
qed

lemma round1_detune:
  assumes "- 25 \<le> d" and "d \<le> 25"
  shows "- 25 \<le> Math_round (d * 10) / 10" and "Math_round (d * 10) / 10 \<le> 25"
proof -
  have "of_int (- 250) \<le> d * 10" and "d * 10 \<le> of_int 250"
    using assms by simp_all
  from Math_round_between [OF this]
  show "- 25 \<le> Math_round (d * 10) / 10" and "Math_round (d * 10) / 10 \<le> 25"
    by simp_all
qed


section \<open>Audio frames\<close>

lemma fold_add: "fold (\<lambda>e t. t + f e) xs (a :: int) = a + (\<Sum>e\<leftarrow>xs. f e)"
  by (induction xs arbitrary: a) simp_all

lemma metric_total_sum: "metric_total m c = (\<Sum>e\<leftarrow>languages c. metric_value m (snd e))"
  by (simp add: metric_total_def fold_add)

lemma audio_frames_nth:
  "i < length cs \<Longrightarrow>
     audio_frames mm langs p cs ! i
       = map (\<lambda>m. (m, metric_frame (mm m) m langs (if i = 0 then p else Some (cs ! (i - 1))) (cs ! i)))
           metrics"
proof (induction cs arbitrary: p i)
  case Nil
  then show ?case by simp
next
  case (Cons c cs)
  show ?case
  proof (cases i)
    case 0
    then show ?thesis by simp
  next
    case (Suc j)
    with Cons.prems have "j < length cs" by simp
    from Cons.IH [OF this, of "Some c"] Suc show ?thesis
      by (cases j) simp_all
  qed
qed

lemma frame_lookup:
  assumes "i < length rs"
  shows "map_of (computeAudioData rs langs ! i) m
           = Some (metric_frame (minMax m rs) m langs (if i = 0 then None else Some (rs ! (i - 1)))
                     (rs ! i))"
proof -
  have "rs \<noteq> []"
    using assms by auto
  then have "computeAudioData rs langs ! i
      = map (\<lambda>m. (m, metric_frame (minMax m rs) m langs
                        (if i = 0 then None else Some (rs ! (i - 1))) (rs ! i))) metrics"
    using assms by (simp add: computeAudioData_def audio_frames_nth)
  then show ?thesis
    by (cases m) (simp_all add: metrics_def)
qed

lemma minMax_fold:
  "fold (\<lambda>c acc. case acc of (mn, mx) \<Rightarrow>
             (Some (case mn of None \<Rightarrow> metric_total m c | Some lo \<Rightarrow> min lo (metric_total m c)),
              max mx (metric_total m c))) rs (mn, mx) = (mn', mx') \<Longrightarrow>
     mx \<le> mx'
     \<and> (\<forall>l. mn = Some l \<longrightarrow> (\<exists>lo. mn' = Some lo \<and> lo \<le> l))
     \<and> (\<forall>c\<in>set rs. metric_total m c \<le> mx' \<and> (\<exists>lo. mn' = Some lo \<and> lo \<le> metric_total m c))"
proof (induction rs arbitrary: mn mx)
  case Nil
  then show ?case by simp
next
  case (Cons c rs)
  let ?mn1 = "Some (case mn of None \<Rightarrow> metric_total m c | Some lo \<Rightarrow> min lo (metric_total m c))"
  let ?mx1 = "max mx (metric_total m c)"
  from Cons.prems have step: "fold (\<lambda>c acc. case acc of (mn, mx) \<Rightarrow>
             (Some (case mn of None \<Rightarrow> metric_total m c | Some lo \<Rightarrow> min lo (metric_total m c)),
              max mx (metric_total m c))) rs (?mn1, ?mx1) = (mn', mx')"
    by simp
  from Cons.IH [OF step] obtain lo where
    mx: "?mx1 \<le> mx'" and lo: "mn' = Some lo"
      "lo \<le> (case mn of None \<Rightarrow> metric_total m c | Some lo \<Rightarrow> min lo (metric_total m c))"
    and rest: "\<forall>c\<in>set rs. metric_total m c \<le> mx' \<and> (\<exists>lo. mn' = Some lo \<and> lo \<le> metric_total m c)"
    by auto
  have "lo \<le> metric_total m c"
    using lo(2) by (cases mn) simp_all
  moreover have "\<forall>l. mn = Some l \<longrightarrow> lo \<le> l"
    using lo(2) by auto
  ultimately show ?case
    using mx lo(1) rest by auto
qed

lemma minMax_bounds:
  assumes "c \<in> set rs"
  shows "\<exists>lo. fst (minMax m rs) = Some lo \<and> lo \<le> metric_total m c
          \<and> metric_total m c \<le> snd (minMax m rs)"
proof -
  obtain mn' mx' where mm: "minMax m rs = (mn', mx')"
    by (cases "minMax m rs")
  from minMax_fold [OF mm [unfolded minMax_def]] assms mm show ?thesis
    by auto
qed

lemma masterIntensity_unit:
  assumes "c \<in> set rs"
  shows "0 \<le> fst (metric_frame (minMax m rs) m langs p c)
       \<and> fst (metric_frame (minMax m rs) m langs p c) \<le> 1"
proof -
  from minMax_bounds [OF assms, of m] obtain lo where
    lo: "fst (minMax m rs) = Some lo" "lo \<le> metric_total m c"
      "metric_total m c \<le> snd (minMax m rs)"
    by blast
  let ?hi = "snd (minMax m rs)"
  let ?x = "(of_int (metric_total m c - lo) / of_int (?hi - lo) :: rat)"
  show ?thesis
  proof (cases "lo < ?hi")
    case True
    have "0 \<le> ?x" and "?x \<le> 1"
      using lo True by simp_all
    from round2_unit [OF this] lo(1) True show ?thesis
      by (simp add: metric_frame_def Let_def)
  next
    case False
    with lo(1) show ?thesis
      by (simp add: metric_frame_def Let_def)
  qed
qed


lemma member_le_sum:
  fixes f :: "'a \<Rightarrow> int"
  assumes "x \<in> set xs" and "\<forall>e\<in>set xs. 0 \<le> f e"
  shows "f x \<le> (\<Sum>e\<leftarrow>xs. f e)"
  using assms
proof (induction xs)
  case Nil
  then show ?case by simp
next
  case (Cons y ys)
  have "0 \<le> (\<Sum>e\<leftarrow>ys. f e)"
    using Cons.prems(2) by (intro sum_list_nonneg) auto
  with Cons show ?case by auto
qed

lemma lang_value_bounds:
  assumes "\<forall>e\<in>set (languages c). 0 \<le> metric_value m (snd e)"
  shows "0 \<le> lang_value m (Some c) l" and "lang_value m (Some c) l \<le> metric_total m c"
proof -
  have tot: "0 \<le> metric_total m c"
    unfolding metric_total_sum using assms by (intro sum_list_nonneg) auto
  show "0 \<le> lang_value m (Some c) l"
    using assms by (auto simp: lang_value_def split: option.splits dest!: map_of_SomeD)
  show "lang_value m (Some c) l \<le> metric_total m c"
  proof (cases "map_of (languages c) l")
    case None
    with tot show ?thesis by (simp add: lang_value_def)
  next
    case (Some st)
    then have "(l, st) \<in> set (languages c)"
      by (rule map_of_SomeD)
    from member_le_sum [OF this, of "\<lambda>e. metric_value m (snd e)"] assms Some show ?thesis
      by (simp add: lang_value_def metric_total_sum)
  qed
qed

lemma voice_of_None:
  "voice_of m langs p c tot v = None
     \<longleftrightarrow> \<not> (0 < tot \<and> lang_value m (Some c) (langs ! v) \<noteq> 0)"
  by (simp add: voice_of_def Let_def)

lemma voice_of_the:
  assumes "0 < tot" and "lang_value m (Some c) (langs ! v) \<noteq> 0"
  shows "fst (the (voice_of m langs p c tot v)) = v"
    and "fst (snd (the (voice_of m langs p c tot v)))
           = Math_round (of_int (lang_value m (Some c) (langs ! v)) / of_int tot * 100) / 100"
    and "- 25 \<le> snd (snd (the (voice_of m langs p c tot v)))"
    and "snd (snd (the (voice_of m langs p c tot v))) \<le> 25"
proof -
  let ?val = "lang_value m (Some c) (langs ! v)"
  let ?prev = "lang_value m p (langs ! v)"
  let ?d = "(if p \<noteq> None \<and> ?prev > 0 then
               max (- AUDIO_DETUNE_MAX)
                 (min AUDIO_DETUNE_MAX ((of_int (?val - ?prev) / of_int ?prev) * AUDIO_DETUNE_MAX))
             else if ?val > 0 \<and> ?prev = 0 then AUDIO_DETUNE_MAX * (1 / 2) else 0)"
  have v: "voice_of m langs p c tot v
             = Some (v, Math_round (of_int ?val / of_int tot * 100) / 100, Math_round (?d * 10) / 10)"
    using assms by (simp add: voice_of_def Let_def)
  show "fst (the (voice_of m langs p c tot v)) = v"
    and "fst (snd (the (voice_of m langs p c tot v)))
           = Math_round (of_int ?val / of_int tot * 100) / 100"
    by (simp_all add: v)
  have "- 25 \<le> ?d" and "?d \<le> 25"
    by (simp_all add: AUDIO_DETUNE_MAX_def)
  from round1_detune [OF this]
  show "- 25 \<le> snd (snd (the (voice_of m langs p c tot v)))"
    and "snd (snd (the (voice_of m langs p c tot v))) \<le> 25"
    by (simp_all add: v)
qed

lemma voices_closed:
  "List.map_filter (voice_of m langs p c tot) vs
     = map (\<lambda>v. the (voice_of m langs p c tot v))
         (filter (\<lambda>v. 0 < tot \<and> lang_value m (Some c) (langs ! v) \<noteq> 0) vs)"
  by (simp add: List.map_filter_def voice_of_None comp_def)

lemma frame_voices:
  "snd (metric_frame mm m langs p c)
     = map (\<lambda>v. the (voice_of m langs p c (metric_total m c) v))
         (filter (\<lambda>v. 0 < metric_total m c \<and> lang_value m (Some c) (langs ! v) \<noteq> 0)
            [0..<min (length langs) AUDIO_MAX_VOICES])"
  by (simp add: metric_frame_def Let_def voices_closed)

text \<open>
  The bounds that the encoder meets. In every frame and for every metric whose values in
  that commit are non-negative: the stored master intensity lies in \<open>[0, 1]\<close>; every
  stored gain lies in \<open>[0, 1]\<close> and is the language's share of the total rounded to two
  decimals; every stored detune lies in \<open>[-25, 25]\<close>; and the voices stored are exactly
  those of the first 16 languages whose value in the commit is non-zero.
\<close>

lemma audio_bounds:
  assumes "i < length rs"
    and "\<forall>e\<in>set (languages (rs ! i)). 0 \<le> metric_value m (snd e)"
    and "map_of (computeAudioData rs langs ! i) m = Some (masterIntensity, voices)"
  shows "0 \<le> masterIntensity \<and> masterIntensity \<le> 1
       \<and> (\<forall>x\<in>set voices.
             0 \<le> fst (snd x) \<and> fst (snd x) \<le> 1 \<and> - 25 \<le> snd (snd x) \<and> snd (snd x) \<le> 25
             \<and> fst (snd x)
                 = Math_round (of_int (lang_value m (Some (rs ! i)) (langs ! fst x))
                     / of_int (metric_total m (rs ! i)) * 100) / 100)
       \<and> fst ` set voices
           = {v. v < min (length langs) AUDIO_MAX_VOICES
                 \<and> lang_value m (Some (rs ! i)) (langs ! v) \<noteq> 0}"
proof -
  let ?c = "rs ! i"
  let ?p = "if i = 0 then None else Some (rs ! (i - 1))"
  let ?tot = "metric_total m ?c"
  let ?val = "\<lambda>v. lang_value m (Some ?c) (langs ! v)"
  let ?n = "min (length langs) AUDIO_MAX_VOICES"
  have fr: "(masterIntensity, voices) = metric_frame (minMax m rs) m langs ?p ?c"
    using frame_lookup [OF assms(1), of langs m] assms(3) by simp
  have mem: "?c \<in> set rs"
    using assms(1) by simp
  have inten: "0 \<le> masterIntensity \<and> masterIntensity \<le> 1"
    using masterIntensity_unit [OF mem, of m langs ?p] fr [symmetric] by simp
  have vs: "voices = map (\<lambda>v. the (voice_of m langs ?p ?c ?tot v))
                       (filter (\<lambda>v. 0 < ?tot \<and> ?val v \<noteq> 0) [0..<?n])"
    using frame_voices [of "minMax m rs" m langs ?p ?c] fr [symmetric] by simp
  have pos: "0 < ?tot" if "?val v \<noteq> 0" for v
    using lang_value_bounds [OF assms(2), of "langs ! v"] that by linarith
  have each: "0 \<le> fst (snd x) \<and> fst (snd x) \<le> 1 \<and> - 25 \<le> snd (snd x) \<and> snd (snd x) \<le> 25
             \<and> fst (snd x) = Math_round (of_int (?val (fst x)) / of_int ?tot * 100) / 100"
    if "x \<in> set voices" for x
  proof -
    from that vs obtain v where v: "0 < ?tot" "?val v \<noteq> 0"
      and x: "x = the (voice_of m langs ?p ?c ?tot v)"
      by auto
    note the = voice_of_the [OF v, of ?p]
    have "0 \<le> ?val v" "?val v \<le> ?tot"
      using lang_value_bounds [OF assms(2), of "langs ! v"] by simp_all
    then have "(0::rat) \<le> of_int (?val v) / of_int ?tot" and "(of_int (?val v) / of_int ?tot :: rat) \<le> 1"
      using v(1) by simp_all
    from round2_unit [OF this] the show ?thesis
      by (simp add: x)
  qed
  have "fst ` set voices = {v. v < ?n \<and> 0 < ?tot \<and> ?val v \<noteq> 0}"
  proof -
    have "fst ` set voices = fst ` (\<lambda>v. the (voice_of m langs ?p ?c ?tot v)) ` {v. v < ?n \<and> 0 < ?tot \<and> ?val v \<noteq> 0}"
      by (subst vs) auto
    also have "\<dots> = (\<lambda>v. v) ` {v. v < ?n \<and> 0 < ?tot \<and> ?val v \<noteq> 0}"
      unfolding image_image by (rule image_cong) (simp_all add: voice_of_the(1))
    finally show ?thesis by simp
  qed
  also have "\<dots> = {v. v < ?n \<and> ?val v \<noteq> 0}"
    using pos by auto
  finally have stored: "fst ` set voices = {v. v < ?n \<and> ?val v \<noteq> 0}" .
  from inten each stored show ?thesis by blast
qed


section \<open>Gain conservation\<close>

lemma sum_list_delta:
  fixes a :: int
  shows "distinct ls \<Longrightarrow> (\<Sum>l\<leftarrow>ls. if l = k then a else 0) = (if k \<in> set ls then a else 0)"
  by (induction ls) auto

lemma sum_lookup:
  fixes f :: "'v \<Rightarrow> int"
  assumes "distinct ls" and "distinct (map fst kvs)"
    and "\<forall>e\<in>set kvs. f (snd e) \<noteq> 0 \<longrightarrow> fst e \<in> set ls"
  shows "(\<Sum>l\<leftarrow>ls. case map_of kvs l of None \<Rightarrow> 0 | Some st \<Rightarrow> f st) = (\<Sum>e\<leftarrow>kvs. f (snd e))"
  using assms(2,3)
proof (induction kvs)
  case Nil
  then show ?case by simp
next
  case (Cons e kvs)
  obtain k st where e: "e = (k, st)"
    by (cases e)
  have fresh: "map_of kvs k = None"
    using Cons.prems(1) e by (simp add: map_of_eq_None_iff)
  have split: "(case map_of (e # kvs) l of None \<Rightarrow> 0 | Some st \<Rightarrow> f st)
      = (if l = k then f st else 0) + (case map_of kvs l of None \<Rightarrow> 0 | Some st \<Rightarrow> f st)" for l
    using fresh by (simp add: e)
  have head: "(\<Sum>l\<leftarrow>ls. if l = k then f st else 0) = f st"
    using sum_list_delta [OF assms(1), of k "f st"] Cons.prems(2) e by auto
  have rest: "(\<Sum>l\<leftarrow>ls. case map_of kvs l of None \<Rightarrow> 0 | Some st \<Rightarrow> f st) = (\<Sum>e\<leftarrow>kvs. f (snd e))"
    using Cons.prems by (intro Cons.IH) simp_all
  have "(\<Sum>l\<leftarrow>ls. case map_of (e # kvs) l of None \<Rightarrow> 0 | Some st \<Rightarrow> f st)
      = (\<Sum>l\<leftarrow>ls. (if l = k then f st else 0)
            + (case map_of kvs l of None \<Rightarrow> 0 | Some st \<Rightarrow> f st))"
    by (simp only: split)
  also have "\<dots> = (\<Sum>l\<leftarrow>ls. if l = k then f st else 0)
      + (\<Sum>l\<leftarrow>ls. case map_of kvs l of None \<Rightarrow> 0 | Some st \<Rightarrow> f st)"
    by (rule sum_list_addf)
  also have "\<dots> = f st + (\<Sum>e\<leftarrow>kvs. f (snd e))"
    by (simp only: head rest)
  finally show ?case
    by (simp add: e)
qed

lemma take_as_map_nth: "n \<le> length xs \<Longrightarrow> map (\<lambda>v. xs ! v) [0..<n] = take n xs"
  by (simp add: list_eq_iff_nth_eq)

lemma first_voices_total:
  assumes "distinct langs" and "distinct (map fst (languages c))"
    and "\<forall>e\<in>set (languages c). metric_value m (snd e) \<noteq> 0
           \<longrightarrow> fst e \<in> set (take AUDIO_MAX_VOICES langs)"
  shows "(\<Sum>v\<leftarrow>[0..<min (length langs) AUDIO_MAX_VOICES]. lang_value m (Some c) (langs ! v))
           = metric_total m c"
proof -
  let ?n = "min (length langs) AUDIO_MAX_VOICES"
  have tk: "take ?n langs = take AUDIO_MAX_VOICES langs"
    by (simp add: min_def)
  have "(\<Sum>v\<leftarrow>[0..<?n]. lang_value m (Some c) (langs ! v))
          = (\<Sum>l\<leftarrow>map (\<lambda>v. langs ! v) [0..<?n]. lang_value m (Some c) l)"
    by (simp add: comp_def)
  also have "\<dots> = (\<Sum>l\<leftarrow>take AUDIO_MAX_VOICES langs. lang_value m (Some c) l)"
    using take_as_map_nth [of ?n langs] tk by simp
  also have "\<dots> = (\<Sum>e\<leftarrow>languages c. metric_value m (snd e))"
    unfolding lang_value_def option.case
    using assms by (intro sum_lookup) simp_all
  finally show ?thesis
    by (simp add: metric_total_sum)
qed

lemma rounded_sum_near:
  "\<bar>(\<Sum>v\<leftarrow>vs. Math_round (g v * 100) / 100) - (\<Sum>v\<leftarrow>vs. g v)\<bar> \<le> of_nat (length vs) * (5 / 1000)"
proof (induction vs)
  case Nil
  then show ?case by simp
next
  case (Cons v vs)
  let ?a = "Math_round (g v * 100) / 100 - g v"
  let ?b = "(\<Sum>v\<leftarrow>vs. Math_round (g v * 100) / 100) - (\<Sum>v\<leftarrow>vs. g v)"
  have "(\<Sum>v\<leftarrow>v # vs. Math_round (g v * 100) / 100) - (\<Sum>v\<leftarrow>v # vs. g v) = ?a + ?b"
    by simp
  moreover have "\<bar>?a + ?b\<bar> \<le> \<bar>?a\<bar> + \<bar>?b\<bar>"
    by (rule abs_triangle_ineq)
  moreover have "\<bar>?a\<bar> \<le> 5 / 1000"
    by (rule round2_near)
  moreover have "of_nat (length (v # vs)) * (5 / 1000) = 5 / 1000 + of_nat (length vs) * (5 / 1000 :: rat)"
    by (simp add: algebra_simps)
  ultimately show ?case
    using Cons.IH by linarith
qed

lemma sum_list_of_int_divide:
  "(\<Sum>v\<leftarrow>vs. (of_int (f v) / t :: rat)) = of_int (\<Sum>v\<leftarrow>vs. f v) / t"
  by (induction vs) (simp_all add: add_divide_distrib)

lemma sum_filter_nonzero:
  fixes g :: "'a \<Rightarrow> rat"
  shows "(\<Sum>v\<leftarrow>filter (\<lambda>v. g v \<noteq> 0) vs. g v) = (\<Sum>v\<leftarrow>vs. g v)"
  by (induction vs) simp_all

text \<open>
  The bound that the encoder meets. In a frame and for a metric whose total is positive,
  when every language of the commit with a non-zero value is among the first 16 languages
  of the ordering, the stored gains sum to 1.0 within 0.005 per stored voice; at most 16
  voices are stored, so within 0.08.
\<close>

lemma gain_sum_within_rounding:
  assumes "i < length rs"
    and "0 < metric_total m (rs ! i)"
    and "distinct langs"
    and "distinct (map fst (languages (rs ! i)))"
    and "\<forall>e\<in>set (languages (rs ! i)). metric_value m (snd e) \<noteq> 0
           \<longrightarrow> fst e \<in> set (take AUDIO_MAX_VOICES langs)"
    and "map_of (computeAudioData rs langs ! i) m = Some (masterIntensity, voices)"
  shows "\<bar>gain_sum voices - 1\<bar> \<le> of_nat (length voices) * (5 / 1000)
       \<and> length voices \<le> AUDIO_MAX_VOICES"
proof -
  let ?c = "rs ! i"
  let ?p = "if i = 0 then None else Some (rs ! (i - 1))"
  let ?tot = "metric_total m ?c"
  let ?val = "\<lambda>v. lang_value m (Some ?c) (langs ! v)"
  let ?g = "\<lambda>v. (of_int (?val v) / of_int ?tot :: rat)"
  let ?n = "min (length langs) AUDIO_MAX_VOICES"
  let ?act = "filter (\<lambda>v. ?g v \<noteq> 0) [0..<?n]"
  have fr: "(masterIntensity, voices) = metric_frame (minMax m rs) m langs ?p ?c"
    using frame_lookup [OF assms(1), of langs m] assms(6) by simp
  have cond: "(0 < ?tot \<and> ?val v \<noteq> 0) \<longleftrightarrow> ?g v \<noteq> 0" for v
    using assms(2) by simp
  have vs: "voices = map (\<lambda>v. the (voice_of m langs ?p ?c ?tot v)) ?act"
    using frame_voices [of "minMax m rs" m langs ?p ?c] fr [symmetric] by (simp add: cond)
  have len: "length voices \<le> AUDIO_MAX_VOICES"
  proof -
    have "length voices \<le> length [0..<?n]"
      unfolding vs length_map by (rule length_filter_le)
    then show ?thesis by simp
  qed
  have "map (\<lambda>x. fst (snd x)) voices = map (\<lambda>v. Math_round (?g v * 100) / 100) ?act"
    unfolding vs map_map comp_def
    by (rule map_cong [OF refl]) (use assms(2) in \<open>simp add: voice_of_the(2)\<close>)
  then have gs: "gain_sum voices = (\<Sum>v\<leftarrow>?act. Math_round (?g v * 100) / 100)"
    by (simp add: gain_sum_def)
  have "(\<Sum>v\<leftarrow>?act. ?g v) = (\<Sum>v\<leftarrow>[0..<?n]. ?g v)"
    by (rule sum_filter_nonzero)
  also have "\<dots> = of_int (\<Sum>v\<leftarrow>[0..<?n]. ?val v) / of_int ?tot"
    by (rule sum_list_of_int_divide)
  also have "\<dots> = 1"
    using first_voices_total [OF assms(3,4,5)] assms(2) by simp
  finally have one: "(\<Sum>v\<leftarrow>?act. ?g v) = 1" .
  have "length voices = length ?act"
    by (simp add: vs)
  with rounded_sum_near [of ?g ?act] one gs
  have "\<bar>gain_sum voices - 1\<bar> \<le> of_nat (length voices) * (5 / 1000)"
    by simp
  with len show ?thesis by simp
qed


text \<open>
  C3 (the failing input). A commit with eight languages of one code line each has a
  positive total; each share 0.125 is stored as 0.13, and the stored gains sum to 1.04,
  which is not within 0.02 of 1.0.
\<close>

theorem C3_eight_equal_languages:
  "0 < metric_total MLines (rs8 ! 0)
   \<and> map_of (computeAudioData rs8 langs8 ! 0) MLines
       = Some (1, [(0, 13 / 100, 25 / 2), (1, 13 / 100, 25 / 2), (2, 13 / 100, 25 / 2),
                   (3, 13 / 100, 25 / 2), (4, 13 / 100, 25 / 2), (5, 13 / 100, 25 / 2),
                   (6, 13 / 100, 25 / 2), (7, 13 / 100, 25 / 2)])
   \<and> gain_sum [(0, 13 / 100, 25 / 2), (1, 13 / 100, 25 / 2), (2, 13 / 100, 25 / 2),
                (3, 13 / 100, 25 / 2), (4, 13 / 100, 25 / 2), (5, 13 / 100, 25 / 2),
                (6, 13 / 100, 25 / 2), (7, 13 / 100, 25 / 2)] = 104 / 100
   \<and> \<not> \<bar>104 / 100 - 1\<bar> \<le> (2 / 100 :: rat)"
  by code_simp

text \<open>The bound at the file counts of the third commit: 0.33 + 0.67.\<close>

lemma gain_sum_within_rounding_example:
  "2 < length rs5
   \<and> 0 < metric_total MFiles (rs5 ! 2)
   \<and> distinct langs5
   \<and> distinct (map fst (languages (rs5 ! 2)))
   \<and> map_of (computeAudioData rs5 langs5 ! 2) MFiles
       = Some (3 / 4, [(1, 33 / 100, 25 / 2), (2, 67 / 100, 25 / 2)])
   \<and> \<bar>gain_sum [(1, 33 / 100, 25 / 2), (2, 67 / 100, 25 / 2)] - 1\<bar>
       \<le> of_nat (length [(1 :: nat, 33 / 100 :: rat, 25 / 2 :: rat), (2, 67 / 100, 25 / 2)]) * (5 / 1000)
   \<and> length [(1 :: nat, 33 / 100 :: rat, 25 / 2 :: rat), (2, 67 / 100, 25 / 2)] \<le> AUDIO_MAX_VOICES"
proof -
  have h: "2 < length rs5" "0 < metric_total MFiles (rs5 ! 2)" "distinct langs5"
    "distinct (map fst (languages (rs5 ! 2)))"
    "\<forall>e\<in>set (languages (rs5 ! 2)). metric_value MFiles (snd e) \<noteq> 0
           \<longrightarrow> fst e \<in> set (take AUDIO_MAX_VOICES langs5)"
    "map_of (computeAudioData rs5 langs5 ! 2) MFiles
       = Some (3 / 4, [(1, 33 / 100, 25 / 2), (2, 67 / 100, 25 / 2)])"
    by code_simp+
  from gain_sum_within_rounding [OF h] h(1-4,6) show ?thesis
    by blast
qed

text \<open>
  C4 (the failing input). At the fifth commit language \<open>D\<close> holds 1 code line of 1000:
  its unrounded gain 0.001 is not zero, so its voice is pushed, and the gain stored for
  it is 0.
\<close>

theorem C4_zero_gain_voice_stored:
  "map_of (computeAudioData rs5 langs5 ! 4) MLines = Some (1, [(0, 1, 25 / 2), (1, 0, 25 / 2)])
   \<and> \<not> 0 < fst (snd (last [(0 :: nat, 1 :: rat, 25 / 2 :: rat), (1, 0, 25 / 2)]))"
  by code_simp

text \<open>The bounds at the same frame.\<close>

lemma audio_bounds_example:
  "4 < length rs5
   \<and> map_of (computeAudioData rs5 langs5 ! 4) MLines = Some (1, [(0, 1, 25 / 2), (1, 0, 25 / 2)])
   \<and> (0 :: rat) \<le> 1 \<and> (1 :: rat) \<le> 1
   \<and> fst ` set [(0 :: nat, 1 :: rat, 25 / 2 :: rat), (1, 0, 25 / 2)]
       = {v. v < min (length langs5) AUDIO_MAX_VOICES \<and> lang_value MLines (Some (rs5 ! 4)) (langs5 ! v) \<noteq> 0}"
proof -
  have h: "4 < length rs5"
    "\<forall>e\<in>set (languages (rs5 ! 4)). 0 \<le> metric_value MLines (snd e)"
    "map_of (computeAudioData rs5 langs5 ! 4) MLines = Some (1, [(0, 1, 25 / 2), (1, 0, 25 / 2)])"
    by code_simp+
  from audio_bounds [OF h] h(1,3) show ?thesis
    by blast
qed

section \<open>The language ranking\<close>

lemma set_Set_add_all: "set (Set_add_all xs s) = set xs \<union> set s"
  unfolding Set_add_all_def by (induction xs arbitrary: s) (auto simp: Set_add_def)

lemma distinct_Set_add_all: "distinct s \<Longrightarrow> distinct (Set_add_all xs s)"
  unfolding Set_add_all_def by (induction xs arbitrary: s) (auto simp: Set_add_def)

lemma set_fold_add_languages:
  "set (fold add_languages rs s) = observed rs \<union> set s"
  by (induction rs arbitrary: s)
     (auto simp: observed_def add_languages_def set_Set_add_all Object_keys_def)

lemma distinct_fold_add_languages: "distinct s \<Longrightarrow> distinct (fold add_languages rs s)"
  by (induction rs arbitrary: s) (simp_all add: add_languages_def distinct_Set_add_all)

lemma set_insert_cmp: "set (insert_cmp cmp x ys) = insert x (set ys)"
  by (induction ys) auto

lemma distinct_insert_cmp: "distinct ys \<Longrightarrow> x \<notin> set ys \<Longrightarrow> distinct (insert_cmp cmp x ys)"
  by (induction ys) (auto simp: set_insert_cmp)

lemma set_Array_sort: "set (Array_sort cmp xs) = set xs"
  unfolding Array_sort_def by (induction xs) (simp_all add: set_insert_cmp)

lemma distinct_Array_sort: "distinct xs \<Longrightarrow> distinct (Array_sort cmp xs)"
  unfolding Array_sort_def
proof (induction xs)
  case Nil
  then show ?case by simp
next
  case (Cons x xs)
  then have "x \<notin> set (foldr (insert_cmp cmp) xs [])"
    using set_Array_sort [of cmp xs] by (simp add: Array_sort_def)
  with Cons show ?case by (simp add: distinct_insert_cmp)
qed

lemma sorted_insert_cmp:
  assumes total: "\<And>a b. a \<in> S \<Longrightarrow> b \<in> S \<Longrightarrow> cmp a b \<le> 0 \<or> cmp b a \<le> 0"
    and trans: "\<And>a b c. a \<in> S \<Longrightarrow> b \<in> S \<Longrightarrow> c \<in> S \<Longrightarrow> cmp a b \<le> 0 \<Longrightarrow> cmp b c \<le> 0
                  \<Longrightarrow> cmp a c \<le> 0"
    and x: "x \<in> S"
  shows "set ys \<subseteq> S \<Longrightarrow> sorted_wrt (\<lambda>a b. cmp a b \<le> 0) ys
           \<Longrightarrow> sorted_wrt (\<lambda>a b. cmp a b \<le> 0) (insert_cmp cmp x ys)"
proof (induction ys)
  case Nil
  then show ?case by simp
next
  case (Cons y ys)
  have y: "y \<in> S" and ys: "set ys \<subseteq> S"
    using Cons.prems(1) by simp_all
  have tail: "sorted_wrt (\<lambda>a b. cmp a b \<le> 0) ys" and above: "\<forall>z\<in>set ys. cmp y z \<le> 0"
    using Cons.prems(2) by simp_all
  show ?case
  proof (cases "cmp x y \<le> 0")
    case True
    have "cmp x z \<le> 0" if "z \<in> set ys" for z
    proof -
      have "z \<in> S" and "cmp y z \<le> 0"
        using that ys above by auto
      with trans [OF x y] True show ?thesis by blast
    qed
    with True Cons.prems(2) show ?thesis by simp
  next
    case False
    with total [OF x y] have yx: "cmp y x \<le> 0"
      by blast
    have "sorted_wrt (\<lambda>a b. cmp a b \<le> 0) (insert_cmp cmp x ys)"
      using ys tail by (rule Cons.IH)
    with False yx above show ?thesis
      by (simp add: set_insert_cmp)
  qed
qed

lemma sorted_Array_sort:
  assumes total: "\<And>a b. a \<in> S \<Longrightarrow> b \<in> S \<Longrightarrow> cmp a b \<le> 0 \<or> cmp b a \<le> 0"
    and trans: "\<And>a b c. a \<in> S \<Longrightarrow> b \<in> S \<Longrightarrow> c \<in> S \<Longrightarrow> cmp a b \<le> 0 \<Longrightarrow> cmp b c \<le> 0
                  \<Longrightarrow> cmp a c \<le> 0"
  shows "set xs \<subseteq> S \<Longrightarrow> sorted_wrt (\<lambda>a b. cmp a b \<le> 0) (Array_sort cmp xs)"
  unfolding Array_sort_def
proof (induction xs)
  case Nil
  then show ?case by simp
next
  case (Cons x xs)
  have x: "x \<in> S" and xs: "set xs \<subseteq> S"
    using Cons.prems by simp_all
  have s: "set (foldr (insert_cmp cmp) xs []) \<subseteq> S"
    using set_Array_sort [of cmp xs] xs by (simp add: Array_sort_def)
  have srt: "sorted_wrt (\<lambda>a b. cmp a b \<le> 0) (foldr (insert_cmp cmp) xs [])"
    using xs by (rule Cons.IH)
  have "sorted_wrt (\<lambda>a b. cmp a b \<le> 0) (insert_cmp cmp x (foldr (insert_cmp cmp) xs []))"
  proof (rule sorted_insert_cmp [where S = S])
    show "cmp a b \<le> 0 \<or> cmp b a \<le> 0" if "a \<in> S" "b \<in> S" for a b
      using that by (rule total)
    show "cmp a c \<le> 0" if "a \<in> S" "b \<in> S" "c \<in> S" "cmp a b \<le> 0" "cmp b c \<le> 0" for a b c
      using that by (rule trans)
  qed (fact x s srt)+
  then show ?case by simp
qed

lemma sorted_wrt_distinct:
  "sorted_wrt P xs \<Longrightarrow> distinct xs \<Longrightarrow> sorted_wrt (\<lambda>a b. P a b \<and> a \<noteq> b) xs"
  by (induction xs) auto


lemma languageCompare_le:
  "languageCompare env r (\<Sum>e\<leftarrow>languages r. code (snd e)) a b \<le> 0
     \<longleftrightarrow> final_share r b < final_share r a
         \<or> (final_share r a = final_share r b \<and> localeCompare env a b \<le> 0)"
proof -
  have eq: "languageCompare env r (\<Sum>e\<leftarrow>languages r. code (snd e)) a b
      = (if final_share r b \<noteq> final_share r a then final_share r b - final_share r a
         else of_int (localeCompare env a b))"
    unfolding languageCompare_def final_share_def Let_def by (rule refl)
  show ?thesis
    unfolding eq by auto
qed

lemma ranking_languages:
  "set (ad_allLanguages (ranking env rs)) = observed rs"
  "distinct (ad_allLanguages (ranking env rs))"
  by (simp_all add: ranking_def set_Array_sort set_fold_add_languages distinct_Array_sort
        distinct_fold_add_languages observed_def)

lemma ranking_sorted:
  assumes "collates (localeCompare env) (observed rs)"
  shows "sorted_wrt (ranked_before (localeCompare env) (last rs)) (ad_allLanguages (ranking env rs))"
proof (cases "rs = []")
  case True
  then show ?thesis by (simp add: ranking_def)
next
  case False
  let ?S = "observed rs"
  let ?lc = "localeCompare env"
  let ?r = "last rs"
  let ?cmp = "languageCompare env ?r (\<Sum>e\<leftarrow>languages ?r. code (snd e))"
  let ?langs = "Array_sort ?cmp (fold add_languages rs [])"
  have langs: "ad_allLanguages (ranking env rs) = ?langs"
    using False by (simp add: ranking_def fold_add)
  have zero: "?lc a b = 0 \<longleftrightarrow> a = b" and anti: "?lc a b < 0 \<longleftrightarrow> 0 < ?lc b a"
    if "a \<in> ?S" "b \<in> ?S" for a b
    using assms that unfolding collates_def by blast+
  have lctrans: "?lc a c < 0" if "a \<in> ?S" "b \<in> ?S" "c \<in> ?S" "?lc a b < 0" "?lc b c < 0" for a b c
    using assms that unfolding collates_def by blast
  have total: "?cmp a b \<le> 0 \<or> ?cmp b a \<le> 0" if "a \<in> ?S" "b \<in> ?S" for a b
  proof -
    have "?lc a b \<le> 0 \<or> ?lc b a \<le> 0"
      using anti [OF that] by linarith
    then show ?thesis
      unfolding languageCompare_le by auto
  qed
  have trans: "?cmp a c \<le> 0"
    if "a \<in> ?S" "b \<in> ?S" "c \<in> ?S" "?cmp a b \<le> 0" "?cmp b c \<le> 0" for a b c
  proof -
    have lc: "?lc a c \<le> 0" if "?lc a b \<le> 0" "?lc b c \<le> 0"
    proof (cases "?lc a b = 0 \<or> ?lc b c = 0")
      case True
      then have "a = b \<or> b = c"
        using zero \<open>a \<in> ?S\<close> \<open>b \<in> ?S\<close> \<open>c \<in> ?S\<close> by blast
      with that show ?thesis by auto
    next
      case False
      with that have "?lc a b < 0" "?lc b c < 0"
        by simp_all
      from lctrans [OF \<open>a \<in> ?S\<close> \<open>b \<in> ?S\<close> \<open>c \<in> ?S\<close> this] show ?thesis
        by simp
    qed
    from that(4,5) lc show ?thesis
      unfolding languageCompare_le by auto
  qed
  have sub: "set (fold add_languages rs []) \<subseteq> ?S"
    by (simp add: set_fold_add_languages)
  have "sorted_wrt (\<lambda>a b. ?cmp a b \<le> 0) ?langs"
    using sub
  proof (rule sorted_Array_sort [where S = ?S, rotated 2])
    show "?cmp a b \<le> 0 \<or> ?cmp b a \<le> 0" if "a \<in> ?S" "b \<in> ?S" for a b
      using that by (rule total)
    show "?cmp a c \<le> 0"
      if "a \<in> ?S" "b \<in> ?S" "c \<in> ?S" "?cmp a b \<le> 0" "?cmp b c \<le> 0" for a b c
      using that by (rule trans)
  qed
  moreover have "distinct ?langs"
    by (simp add: distinct_Array_sort distinct_fold_add_languages)
  ultimately have "sorted_wrt (\<lambda>a b. ?cmp a b \<le> 0 \<and> a \<noteq> b) ?langs"
    by (rule sorted_wrt_distinct)
  moreover have "ranked_before ?lc ?r a b"
    if "a \<in> set ?langs" "b \<in> set ?langs" "?cmp a b \<le> 0 \<and> a \<noteq> b" for a b
  proof -
    have "a \<in> ?S" "b \<in> ?S"
      using that(1,2) by (simp_all add: set_Array_sort set_fold_add_languages)
    from zero [OF this] that(3) have "?lc a b \<noteq> 0"
      by simp
    with that(3) show ?thesis
      unfolding languageCompare_le ranked_before_def by auto
  qed
  ultimately have "sorted_wrt (ranked_before ?lc ?r) ?langs"
    by (rule sorted_wrt_mono_rel [rotated])
  then show ?thesis
    by (simp only: langs)
qed

text \<open>
  C6 (amended). The ordering returned by \<open>analyzeCommits\<close> lists every language observed
  in the merged results exactly once; and, the host's \<open>localeCompare\<close> being a linear order
  on these names, it is sorted by descending share of the code lines of the final commit
  (0 for a language absent from it, 0 if it has no code lines), equal shares in ascending
  order of the host's \<open>localeCompare\<close>.
\<close>

theorem C6_language_ranking:
  assumes "analyzeCommits env commits existingResults tool = Inr ad"
  shows "set (ad_allLanguages ad) = observed (ad_results ad)
       \<and> distinct (ad_allLanguages ad)
       \<and> (collates (localeCompare env) (observed (ad_results ad)) \<longrightarrow>
            sorted_wrt (ranked_before (localeCompare env) (last (ad_results ad))) (ad_allLanguages ad))"
proof -
  let ?rs = "existingResults @ map (commit_record env tool) commits"
  have ad: "ad = ranking env ?rs"
    using assms by (rule analyzeCommits_ranking)
  show ?thesis
    unfolding ad ranking_results using ranking_languages [of env ?rs] ranking_sorted [of env ?rs]
    by blast
qed


text \<open>
  C6 (amended), at a final commit with languages A: 100, B: 300, C: 0 and 400 code lines: the
  ordering is B, A, C. After all five commits of the example it is A, D, B, C, the
  languages B and C of share 0 in the order of their names.
\<close>

theorem C6_language_ranking_witness:
  "analyzeCommits env5 [hd commits3] [] ''scc''
     = Inr (ranking env5 [commit_record env5 ''scc'' (hd commits3)])
   \<and> map (\<lambda>e. (fst e, code (snd e)))
         (languages (last (ad_results (ranking env5 [commit_record env5 ''scc'' (hd commits3)]))))
       = [(''A'', 100), (''B'', 300), (''C'', 0)]
   \<and> totalLines (last (ad_results (ranking env5 [commit_record env5 ''scc'' (hd commits3)]))) = 400
   \<and> ad_allLanguages (ranking env5 [commit_record env5 ''scc'' (hd commits3)]) = [''B'', ''A'', ''C'']
   \<and> sorted_wrt
        (ranked_before (localeCompare env5)
           (last (ad_results (ranking env5 [commit_record env5 ''scc'' (hd commits3)]))))
        (ad_allLanguages (ranking env5 [commit_record env5 ''scc'' (hd commits3)]))
   \<and> ad_allLanguages (ranking env5 rs5) = [''A'', ''D'', ''B'', ''C'']"
proof -
  let ?ad = "ranking env5 [commit_record env5 ''scc'' (hd commits3)]"
  have run: "analyzeCommits env5 [hd commits3] [] ''scc'' = Inr ?ad"
    by code_simp
  have col: "collates (localeCompare env5) (observed (ad_results ?ad))"
    by code_simp
  have vals: "map (\<lambda>e. (fst e, code (snd e))) (languages (last (ad_results ?ad)))
       = [(''A'', 100), (''B'', 300), (''C'', 0)]"
    "totalLines (last (ad_results ?ad)) = 400"
    "ad_allLanguages ?ad = [''B'', ''A'', ''C'']"
    "ad_allLanguages (ranking env5 rs5) = [''A'', ''D'', ''B'', ''C'']"
    by code_simp+
  from C6_language_ranking [OF run] col run vals show ?thesis
    by blast
qed

text \<open>
  C6 as stated fails where the host's collation is not the lexicographic order: the
  languages \<open>gitignore\<close>, \<open>Makefile\<close> and \<open>YAML\<close> have equal shares and are returned in this
  order, while lexicographically \<open>gitignore\<close> comes after \<open>Makefile\<close> and after \<open>YAML\<close>.
\<close>

theorem C6_stated_counterexample:
  "analyzeCommits env_host [\<lparr>hash = ''g1'', date = ''2024-03-01'', message = ''tools''\<rparr>] [] ''scc''
     = Inr (ranking env_host rsG)
   \<and> ad_allLanguages (ranking env_host rsG) = [''gitignore'', ''Makefile'', ''YAML'']
   \<and> final_share (last rsG) ''gitignore'' = 1 / 3
   \<and> final_share (last rsG) ''Makefile'' = 1 / 3
   \<and> final_share (last rsG) ''YAML'' = 1 / 3
   \<and> codeUnitCompare ''Makefile'' ''gitignore'' < 0
   \<and> codeUnitCompare ''YAML'' ''gitignore'' < 0
   \<and> \<not> sorted_wrt (ranked_before codeUnitCompare (last rsG)) (ad_allLanguages (ranking env_host rsG))"
  by code_simp

end
